theory Spec2Isabelle
  imports Complex_Main "HOL-Library.Word"
begin

unbundle bit_operations_syntax

section \<open>Basic types\<close>

text \<open>
  The client is one C++ file, \<^verbatim>\<open>src/main.cpp\<close>, built on SFML. Fixed-width integers are
  words. \<^verbatim>\<open>sf::Time\<close> is a signed 64-bit count of microseconds; it is modelled as an
  unbounded \<open>int\<close> of microseconds (the 64-bit range is about 292000 years and is never
  approached). A C++ \<^verbatim>\<open>int\<close> that only counts frames or tiles is an \<open>int\<close>.
\<close>

type_synonym u8 = "8 word"
type_synonym u32 = "32 word"
type_synonym i32 = "32 word"
type_synonym Time = int

text \<open>
  A \<^verbatim>\<open>float\<close> travels over the wire as the four bytes of its object representation
  (SFML copies them with \<^verbatim>\<open>memcpy\<close>, without byte swapping), so the codec treats it as
  exactly these four bytes.
\<close>

datatype f32 = F32 u8 u8 u8 u8

text \<open>
  \<^verbatim>\<open>sf::seconds(float)\<close> multiplies by one million and truncates to microseconds. The
  float literals of the source are represented by the reals they denote exactly:
  \<^verbatim>\<open>0.1f\<close> is \<open>13421773 / 2^27\<close> and \<^verbatim>\<open>0.18f\<close> is \<open>3019899 / 2^24\<close>.
\<close>

definition seconds :: "real \<Rightarrow> Time" where
  "seconds amount = \<lfloor>amount * 1000000\<rfloor>"

definition f_0_1 :: real where
  "f_0_1 = 13421773 / 134217728"

definition f_0_18 :: real where
  "f_0_18 = 3019899 / 16777216"

section \<open>Animation constants and data (lines 14--56)\<close>

definition FRAME_WIDTH :: int where "FRAME_WIDTH = 64"
definition FRAME_HEIGHT :: int where "FRAME_HEIGHT = 64"
definition FRAMES_PER_ROW :: int where "FRAMES_PER_ROW = 8"
definition STATE_CHANGE_COOLDOWN :: real where "STATE_CHANGE_COOLDOWN = f_0_1"

datatype PlayerAnimState = Stand | Walk | Jump | Stance

record AnimationData =
  startFrameIndex :: int
  frameCount :: int
  timePerFrame :: real

record PlayerInputState =
  up :: bool
  down :: bool
  left :: bool
  right :: bool
  jump :: bool

datatype PacketType = Welcome | PlayerState | PlayerInput | PlayerJoined | PlayerLeft | MapData

section \<open>Packets (the part of \<^verbatim>\<open>sf::Packet\<close> the client uses)\<close>

text \<open>
  A received \<^verbatim>\<open>sf::Packet\<close> is a byte buffer with a read position and a validity flag.
  Every extraction \<^verbatim>\<open>packet >> v\<close> first checks that enough unread bytes remain; if
  not, it marks the packet invalid, reads nothing and leaves \<^verbatim>\<open>v\<close> alone, and every
  later extraction fails as well. \<^verbatim>\<open>if (!(packet >> a >> b))\<close> tests the flag after the
  chain. The model keeps the unread bytes only: an extraction returns the value and the
  remaining bytes, or \<open>None\<close> for "the packet is now invalid", which propagates through a
  chain exactly as the sticky flag does.

  Integers are sent in network byte order, a \<^verbatim>\<open>bool\<close> as one byte that is read back as
  \<^verbatim>\<open>value != 0\<close>, and a float as its four bytes.
\<close>

type_synonym Packet = "u8 list"

definition ntohl :: "u8 \<Rightarrow> u8 \<Rightarrow> u8 \<Rightarrow> u8 \<Rightarrow> u32" where
  "ntohl a b c d =
     push_bit 24 (ucast a) OR push_bit 16 (ucast b) OR push_bit 8 (ucast c) OR ucast d"

definition htonl :: "u32 \<Rightarrow> u8 list" where
  "htonl w = [ucast (drop_bit 24 w), ucast (drop_bit 16 w), ucast (drop_bit 8 w), ucast w]"

fun get_u8 :: "Packet \<Rightarrow> (u8 \<times> Packet) option" where
  "get_u8 (b # r) = Some (b, r)"
| "get_u8 [] = None"

definition get_bool :: "Packet \<Rightarrow> (bool \<times> Packet) option" where
  "get_bool p = (case get_u8 p of None \<Rightarrow> None | Some (v, r) \<Rightarrow> Some (v \<noteq> 0, r))"

fun get_u32 :: "Packet \<Rightarrow> (u32 \<times> Packet) option" where
  "get_u32 (a # b # c # d # r) = Some (ntohl a b c d, r)"
| "get_u32 _ = None"

definition get_i32 :: "Packet \<Rightarrow> (i32 \<times> Packet) option" where
  "get_i32 p = get_u32 p"

fun get_f32 :: "Packet \<Rightarrow> (f32 \<times> Packet) option" where
  "get_f32 (a # b # c # d # r) = Some (F32 a b c d, r)"
| "get_f32 _ = None"

definition put_u8 :: "u8 \<Rightarrow> u8 list" where
  "put_u8 v = [v]"

definition put_bool :: "bool \<Rightarrow> u8 list" where
  "put_bool b = put_u8 (if b then 1 else 0)"

definition put_u32 :: "u32 \<Rightarrow> u8 list" where
  "put_u32 w = htonl w"

definition put_i32 :: "i32 \<Rightarrow> u8 list" where
  "put_i32 w = htonl w"

fun put_f32 :: "f32 \<Rightarrow> u8 list" where
  "put_f32 (F32 a b c d) = [a, b, c, d]"

subsection \<open>The stream operators of the source (lines 58--80)\<close>

text \<open>\<^verbatim>\<open>operator<<(sf::Packet&, const PlayerInputState&)\<close>\<close>

definition put_PlayerInputState :: "PlayerInputState \<Rightarrow> u8 list" where
  "put_PlayerInputState input =
     put_bool (up input) @ put_bool (down input) @ put_bool (left input)
       @ put_bool (right input) @ put_bool (jump input)"

text \<open>\<^verbatim>\<open>operator>>(sf::Packet&, PlayerInputState&)\<close>\<close>

definition get_PlayerInputState :: "Packet \<Rightarrow> (PlayerInputState \<times> Packet) option" where
  "get_PlayerInputState p =
     (case get_bool p of None \<Rightarrow> None | Some (u, p1) \<Rightarrow>
     (case get_bool p1 of None \<Rightarrow> None | Some (d, p2) \<Rightarrow>
     (case get_bool p2 of None \<Rightarrow> None | Some (l, p3) \<Rightarrow>
     (case get_bool p3 of None \<Rightarrow> None | Some (r, p4) \<Rightarrow>
     (case get_bool p4 of None \<Rightarrow> None | Some (j, p5) \<Rightarrow>
        Some (\<lparr>up = u, down = d, left = l, right = r, jump = j\<rparr>, p5))))))"

text \<open>
  \<^verbatim>\<open>static_cast<uint8_t>(type)\<close> and back. A byte that is none of the six enumerators
  is a value the \<^verbatim>\<open>switch\<close> sends to \<^verbatim>\<open>default\<close>; it is \<open>None\<close> here.
\<close>

fun PacketType_to_u8 :: "PacketType \<Rightarrow> u8" where
  "PacketType_to_u8 Welcome = 0"
| "PacketType_to_u8 PlayerState = 1"
| "PacketType_to_u8 PlayerInput = 2"
| "PacketType_to_u8 PlayerJoined = 3"
| "PacketType_to_u8 PlayerLeft = 4"
| "PacketType_to_u8 MapData = 5"

definition PacketType_of_u8 :: "u8 \<Rightarrow> PacketType option" where
  "PacketType_of_u8 v =
     (if v = 0 then Some Welcome else if v = 1 then Some PlayerState
      else if v = 2 then Some PlayerInput else if v = 3 then Some PlayerJoined
      else if v = 4 then Some PlayerLeft else if v = 5 then Some MapData else None)"

text \<open>\<^verbatim>\<open>operator<<(sf::Packet&, PacketType)\<close>\<close>

definition put_PacketType :: "PacketType \<Rightarrow> u8 list" where
  "put_PacketType type = put_u8 (PacketType_to_u8 type)"

text \<open>
  \<^verbatim>\<open>operator>>(sf::Packet&, PacketType&)\<close>: the outer \<open>option\<close> is the packet's validity,
  the inner one the enumerator the byte stands for.
\<close>

definition get_PacketType :: "Packet \<Rightarrow> (PacketType option \<times> Packet) option" where
  "get_PacketType p =
     (case get_u8 p of None \<Rightarrow> None | Some (v, r) \<Rightarrow> Some (PacketType_of_u8 v, r))"

subsection \<open>The field sequences read by the dispatcher\<close>

text \<open>\<^verbatim>\<open>packet >> id >> x >> y >> isOnGround\<close> (lines 228 and 306).\<close>

definition get_id_x_y_ground :: "Packet \<Rightarrow> ((u32 \<times> f32 \<times> f32 \<times> bool) \<times> Packet) option" where
  "get_id_x_y_ground p =
     (case get_u32 p of None \<Rightarrow> None | Some (i, p1) \<Rightarrow>
     (case get_f32 p1 of None \<Rightarrow> None | Some (x, p2) \<Rightarrow>
     (case get_f32 p2 of None \<Rightarrow> None | Some (y, p3) \<Rightarrow>
     (case get_bool p3 of None \<Rightarrow> None | Some (g, p4) \<Rightarrow> Some ((i, x, y, g), p4)))))"

text \<open>\<^verbatim>\<open>packet >> width >> height\<close> (line 348).\<close>

definition get_width_height :: "Packet \<Rightarrow> ((u32 \<times> u32) \<times> Packet) option" where
  "get_width_height p =
     (case get_u32 p of None \<Rightarrow> None | Some (w, p1) \<Rightarrow>
     (case get_u32 p1 of None \<Rightarrow> None | Some (h, p2) \<Rightarrow> Some ((w, h), p2)))"

section \<open>The client state (the variables of \<^verbatim>\<open>main\<close>, lines 89--139)\<close>

text \<open>
  Positions are \<^verbatim>\<open>float\<close> pairs in the source. The program only stores them, compares
  them, and subtracts two of them once (line 281); they are modelled as the reals they
  denote, so infinities, NaNs and the rounding of that one subtraction are outside the
  model. The conversion from the four bytes on the wire to that real is a parameter \<open>fv\<close>
  of the dispatcher.

  A sprite keeps what the program sets on it. The origin is the same constant for every
  sprite and is left out. Remote sprites are held through \<^verbatim>\<open>std::shared_ptr\<close>; each
  pointer is created by \<^verbatim>\<open>make_shared\<close>, never copied and never null, so the map holds
  the sprite itself.
\<close>

type_synonym Vector2f = "real \<times> real"
type_synonym IntRect = "(int \<times> int) \<times> (int \<times> int)"

record Sprite =
  position :: Vector2f
  textureRect :: IntRect
  scale :: Vector2f

record RectangleShape =
  shapeSize :: Vector2f
  shapePosition :: Vector2f

text \<open>\<^verbatim>\<open>sf::Sprite(texture)\<close>: at the origin, showing the whole texture, unscaled.\<close>

definition Sprite_new :: "int \<times> int \<Rightarrow> Sprite" where
  "Sprite_new textureSize = \<lparr>position = (0, 0), textureRect = ((0, 0), textureSize), scale = (1, 1)\<rparr>"

record client =
  clientTileMap :: "i32 list list"
  clientMapWidth :: int
  clientMapHeight :: int
  mapShapes :: "RectangleShape list"
  mapLoaded :: bool
  playerTexture :: "int \<times> int"
  playerSprite :: Sprite
  currentAnimState :: PlayerAnimState
  myIsOnGround :: bool
  previousX :: real
  facingRight :: bool
  currentFrame :: int
  animTimer :: Time
  stateChangeCooldownTimer :: Time
  myPlayerId :: u32
  otherPlayers :: "u32 \<rightharpoonup> Sprite"
  otherPlayersAnimState :: "u32 \<rightharpoonup> PlayerAnimState"
  otherPlayersCurrentFrame :: "u32 \<rightharpoonup> int"
  otherPlayersAnimTimer :: "u32 \<rightharpoonup> Time"
  otherPlayersFacingRight :: "u32 \<rightharpoonup> bool"

definition CLIENT_TILE_SIZE :: real where "CLIENT_TILE_SIZE = 40"

text \<open>The table \<^verbatim>\<open>animData\<close> (lines 98--103), a \<^verbatim>\<open>std::map\<close> with all four keys.\<close>

fun animData :: "PlayerAnimState \<rightharpoonup> AnimationData" where
  "animData Stand = Some \<lparr>startFrameIndex = 64, frameCount = 1, timePerFrame = f_0_18\<rparr>"
| "animData Walk = Some \<lparr>startFrameIndex = 32, frameCount = 8, timePerFrame = f_0_1\<rparr>"
| "animData Jump = Some \<lparr>startFrameIndex = 42, frameCount = 6, timePerFrame = f_0_1\<rparr>"
| "animData Stance = Some \<lparr>startFrameIndex = 0, frameCount = 4, timePerFrame = f_0_18\<rparr>"

text \<open>The state when the game loop is entered; \<open>textureSize\<close> is the size of the loaded image.\<close>

definition initial :: "int \<times> int \<Rightarrow> client" where
  "initial textureSize =
     \<lparr>clientTileMap = [], clientMapWidth = 0, clientMapHeight = 0, mapShapes = [],
      mapLoaded = False, playerTexture = textureSize,
      playerSprite = (Sprite_new textureSize)\<lparr>position := (400, 300)\<rparr>,
      currentAnimState = Stand, myIsOnGround = True, previousX = 400, facingRight = True,
      currentFrame = 0, animTimer = 0, stateChangeCooldownTimer = 0,
      myPlayerId = - 1,
      otherPlayers = Map.empty, otherPlayersAnimState = Map.empty,
      otherPlayersCurrentFrame = Map.empty, otherPlayersAnimTimer = Map.empty,
      otherPlayersFacingRight = Map.empty\<rparr>"

section \<open>Frame arithmetic\<close>

text \<open>C++ \<^verbatim>\<open>/\<close> and \<^verbatim>\<open>%\<close> on \<^verbatim>\<open>int\<close> truncate towards zero.\<close>

definition c_div :: "int \<Rightarrow> int \<Rightarrow> int" where
  "c_div a b = sgn a * sgn b * (\<bar>a\<bar> div \<bar>b\<bar>)"

definition c_mod :: "int \<Rightarrow> int \<Rightarrow> int" where
  "c_mod a b = a - b * c_div a b"

text \<open>The rectangle of a frame in the sprite sheet (lines 443--446, 458--461, 484--487).\<close>

definition frameRect :: "AnimationData \<Rightarrow> int \<Rightarrow> IntRect" where
  "frameRect data frame =
     (let frameOverallIndex = startFrameIndex data + frame;
          frameCol = c_mod frameOverallIndex FRAMES_PER_ROW;
          frameRow = c_div frameOverallIndex FRAMES_PER_ROW
      in ((frameCol * FRAME_WIDTH, frameRow * FRAME_HEIGHT), (FRAME_WIDTH, FRAME_HEIGHT)))"

section \<open>The synchronization dispatcher (lines 198--406)\<close>

datatype failure = LengthError | OutOfBounds | OutOfRange

text \<open>Case \<^verbatim>\<open>Welcome\<close> (lines 219--221).\<close>

definition on_Welcome :: "u32 \<Rightarrow> client \<Rightarrow> client" where
  "on_Welcome receivedId s = s\<lparr>myPlayerId := receivedId\<rparr>"

text \<open>
  Lines 255--296, for the sprite \<open>sprite\<close> that \<^verbatim>\<open>otherPlayers[id]\<close> points to.
  \<^verbatim>\<open>otherPlayersAnimState[id]\<close> is \<^verbatim>\<open>operator[]\<close>, which yields a value-initialised
  entry (\<open>Stand\<close>) for a missing key. The reference \<^verbatim>\<open>otherGroundState\<close> of line 271 is
  never used; the test of line 277 reads the flag decoded from the message.
\<close>

definition update_other :: "u32 \<Rightarrow> real \<Rightarrow> real \<Rightarrow> bool \<Rightarrow> Sprite \<Rightarrow> client \<Rightarrow> client" where
  "update_other pid x y isOnGround sprite s =
     (let otherPrevX = fst (position sprite);
          s1 = s\<lparr>otherPlayers := (otherPlayers s)(pid \<mapsto> sprite\<lparr>position := (x, y)\<rparr>)\<rparr>;
          s2 = (if x > otherPrevX
                then s1\<lparr>otherPlayersFacingRight := (otherPlayersFacingRight s1)(pid \<mapsto> True)\<rparr>
                else if x < otherPrevX
                then s1\<lparr>otherPlayersFacingRight := (otherPlayersFacingRight s1)(pid \<mapsto> False)\<rparr>
                else s1);
          current = (case otherPlayersAnimState s2 pid of None \<Rightarrow> Stand | Some a \<Rightarrow> a);
          targetOtherState =
            (if \<not> isOnGround then Jump
             else if \<bar>x - otherPrevX\<bar> > f_0_1 then Walk
             else Stand);
          s3 = (if current \<noteq> targetOtherState
                then s2\<lparr>otherPlayersCurrentFrame := (otherPlayersCurrentFrame s2)(pid \<mapsto> 0),
                        otherPlayersAnimTimer := (otherPlayersAnimTimer s2)(pid \<mapsto> 0)\<rparr>
                else s2)
      in s3\<lparr>otherPlayersAnimState := (otherPlayersAnimState s3)(pid \<mapsto> targetOtherState)\<rparr>)"

text \<open>Lines 244--250: the record created for an ID seen first in a \<^verbatim>\<open>PlayerState\<close>.\<close>

definition create_other :: "u32 \<Rightarrow> client \<Rightarrow> client" where
  "create_other pid s =
     s\<lparr>otherPlayers := (otherPlayers s)(pid \<mapsto> Sprite_new (playerTexture s)),
       otherPlayersAnimState := (otherPlayersAnimState s)(pid \<mapsto> Stand),
       otherPlayersCurrentFrame := (otherPlayersCurrentFrame s)(pid \<mapsto> 0),
       otherPlayersAnimTimer := (otherPlayersAnimTimer s)(pid \<mapsto> 0),
       otherPlayersFacingRight := (otherPlayersFacingRight s)(pid \<mapsto> True)\<rparr>"

text \<open>Case \<^verbatim>\<open>PlayerState\<close> after decoding (lines 234--297).\<close>

definition on_PlayerState :: "u32 \<Rightarrow> real \<Rightarrow> real \<Rightarrow> bool \<Rightarrow> client \<Rightarrow> client" where
  "on_PlayerState pid x y isOnGround s =
     (if pid = myPlayerId s
      then s\<lparr>myIsOnGround := isOnGround,
             playerSprite := (playerSprite s)\<lparr>position := (x, y)\<rparr>\<rparr>
      else (case otherPlayers s pid of
              None \<Rightarrow> update_other pid x y isOnGround (Sprite_new (playerTexture s)) (create_other pid s)
            | Some sprite \<Rightarrow> update_other pid x y isOnGround sprite s))"

text \<open>Case \<^verbatim>\<open>PlayerJoined\<close> after decoding (lines 310--321).\<close>

definition on_PlayerJoined :: "u32 \<Rightarrow> real \<Rightarrow> real \<Rightarrow> bool \<Rightarrow> client \<Rightarrow> client" where
  "on_PlayerJoined pid x y onGround s =
     (if pid \<noteq> myPlayerId s \<and> otherPlayers s pid = None
      then s\<lparr>otherPlayers := (otherPlayers s)(pid \<mapsto> (Sprite_new (playerTexture s))\<lparr>position := (x, y)\<rparr>),
             otherPlayersAnimState := (otherPlayersAnimState s)(pid \<mapsto> if onGround then Stand else Jump),
             otherPlayersCurrentFrame := (otherPlayersCurrentFrame s)(pid \<mapsto> 0),
             otherPlayersAnimTimer := (otherPlayersAnimTimer s)(pid \<mapsto> 0),
             otherPlayersFacingRight := (otherPlayersFacingRight s)(pid \<mapsto> True)\<rparr>
      else s)"

text \<open>Case \<^verbatim>\<open>PlayerLeft\<close> after decoding (lines 331--341).\<close>

definition on_PlayerLeft :: "u32 \<Rightarrow> client \<Rightarrow> client" where
  "on_PlayerLeft pid s =
     (if pid \<noteq> myPlayerId s
      then (if otherPlayers s pid \<noteq> None
            then s\<lparr>otherPlayers := (otherPlayers s)(pid := None),
                   otherPlayersAnimState := (otherPlayersAnimState s)(pid := None),
                   otherPlayersCurrentFrame := (otherPlayersCurrentFrame s)(pid := None),
                   otherPlayersAnimTimer := (otherPlayersAnimTimer s)(pid := None),
                   otherPlayersFacingRight := (otherPlayersFacingRight s)(pid := None)\<rparr>
            else s)
      else s)"

subsection \<open>Case \<^verbatim>\<open>MapData\<close> (lines 344--401)\<close>

text \<open>
  \<^verbatim>\<open>std::vector::resize(n, row)\<close>: rows beyond \<open>n\<close> are dropped, missing rows are
  appended as copies of \<open>row\<close>, and the rows that stay are not touched.
\<close>

definition resize_rows :: "nat \<Rightarrow> 'a \<Rightarrow> 'a list \<Rightarrow> 'a list" where
  "resize_rows n row rows =
     (if n \<le> length rows then take n rows else rows @ replicate (n - length rows) row)"

text \<open>The white square pushed for a wall tile (lines 366--369).\<close>

definition tileShape :: "nat \<Rightarrow> nat \<Rightarrow> RectangleShape" where
  "tileShape x y =
     \<lparr>shapeSize = (CLIENT_TILE_SIZE, CLIENT_TILE_SIZE),
      shapePosition = (real x * CLIENT_TILE_SIZE, real y * CLIENT_TILE_SIZE)\<rparr>"

text \<open>
  The inner loop (lines 357--377) from column \<open>x\<close> on, for the loop bound \<open>w\<close> held in
  \<^verbatim>\<open>clientMapWidth\<close>. The result carries \<^verbatim>\<open>parseOk\<close>, the packet, the grid and the shapes.
  \<^verbatim>\<open>clientTileMap[y][x]\<close> is an unchecked access: outside the row it is undefined
  behaviour, \<open>Inl OutOfBounds\<close> here.
\<close>

function read_row ::
  "int \<Rightarrow> nat \<Rightarrow> nat \<Rightarrow> Packet \<Rightarrow> i32 list list \<Rightarrow> RectangleShape list
     \<Rightarrow> failure + (bool \<times> Packet \<times> i32 list list \<times> RectangleShape list)" where
  "read_row w y x packet grid shapes =
     (if int x < w
      then (case get_i32 packet of
              None \<Rightarrow> Inr (False, packet, grid, shapes)
            | Some (tileValue, packet') \<Rightarrow>
                if y < length grid \<and> x < length (grid ! y)
                then read_row w y (x + 1) packet'
                       (grid[y := (grid ! y)[x := tileValue]])
                       (if tileValue = 1 then shapes @ [tileShape x y] else shapes)
                else Inl OutOfBounds)
      else Inr (True, packet, grid, shapes))"
  by pat_completeness auto
termination
  by (relation "measure (\<lambda>(w, y, x, packet, grid, shapes). nat w - x)") auto

text \<open>The outer loop (lines 355--380) from row \<open>y\<close> on; it yields \<^verbatim>\<open>parseOk\<close>.\<close>

function read_rows ::
  "int \<Rightarrow> int \<Rightarrow> nat \<Rightarrow> Packet \<Rightarrow> i32 list list \<Rightarrow> RectangleShape list
     \<Rightarrow> failure + (bool \<times> i32 list list \<times> RectangleShape list)" where
  "read_rows w h y packet grid shapes =
     (if int y < h
      then (case read_row w y 0 packet grid shapes of
              Inl e \<Rightarrow> Inl e
            | Inr (parseOk, packet', grid', shapes') \<Rightarrow>
                if \<not> parseOk then Inr (False, grid', shapes')
                else read_rows w h (y + 1) packet' grid' shapes')
      else Inr (True, grid, shapes))"
  by pat_completeness auto
termination
  by (relation "measure (\<lambda>(w, h, y, packet, grid, shapes). nat h - y)") auto

text \<open>
  The whole case. \<^verbatim>\<open>static_cast<int>\<close> reads the 32 bits as a signed number. A negative
  width or height becomes a huge \<^verbatim>\<open>size_t\<close>, for which the vector constructor or
  \<^verbatim>\<open>resize\<close> throws \<^verbatim>\<open>std::length_error\<close>; nothing catches it. Memory exhaustion for
  large positive sizes is not modelled.
\<close>

definition on_MapData :: "Packet \<Rightarrow> client \<Rightarrow> failure + client" where
  "on_MapData packet s =
     (case get_width_height packet of
        None \<Rightarrow> Inr s
      | Some ((width, height), packet') \<Rightarrow>
          (let w = sint width; h = sint height in
           if w < 0 \<or> h < 0 then Inl LengthError
           else (case read_rows w h 0 packet'
                        (resize_rows (nat h) (replicate (nat w) 0) (clientTileMap s)) [] of
                   Inl e \<Rightarrow> Inl e
                 | Inr (parseOk, grid, shapes) \<Rightarrow>
                     Inr (s\<lparr>clientMapWidth := w, clientMapHeight := h,
                            clientTileMap := grid, mapShapes := shapes,
                            mapLoaded := (if parseOk then True else mapLoaded s)\<rparr>))))"

subsection \<open>The \<^verbatim>\<open>switch\<close> and the receive loop\<close>

text \<open>
  One pass of the loop body for a received packet (lines 203--405). A failed extraction
  is \<^verbatim>\<open>continue\<close>; \<^verbatim>\<open>PlayerInput\<close> has no case label and goes to \<^verbatim>\<open>default\<close> like an
  unknown byte; both only log. \<open>fv\<close> gives the real a float's bytes denote.
\<close>

definition handle_packet :: "(f32 \<Rightarrow> real) \<Rightarrow> Packet \<Rightarrow> client \<Rightarrow> failure + client" where
  "handle_packet fv packet s =
     (case get_PacketType packet of
        None \<Rightarrow> Inr s
      | Some (type, p) \<Rightarrow>
          (case type of
             None \<Rightarrow> Inr s
           | Some Welcome \<Rightarrow>
               (case get_u32 p of
                  None \<Rightarrow> Inr s
                | Some (receivedId, _) \<Rightarrow> Inr (on_Welcome receivedId s))
           | Some PlayerState \<Rightarrow>
               (case get_id_x_y_ground p of
                  None \<Rightarrow> Inr s
                | Some ((pid, x, y, isOnGround), _) \<Rightarrow>
                    Inr (on_PlayerState pid (fv x) (fv y) isOnGround s))
           | Some PlayerInput \<Rightarrow> Inr s
           | Some PlayerJoined \<Rightarrow>
               (case get_id_x_y_ground p of
                  None \<Rightarrow> Inr s
                | Some ((pid, x, y, onGround), _) \<Rightarrow>
                    Inr (on_PlayerJoined pid (fv x) (fv y) onGround s))
           | Some PlayerLeft \<Rightarrow>
               (case get_u32 p of
                  None \<Rightarrow> Inr s
                | Some (pid, _) \<Rightarrow> Inr (on_PlayerLeft pid s))
           | Some MapData \<Rightarrow> on_MapData p s))"

text \<open>The \<^verbatim>\<open>while (socket.receive(packet) == Done)\<close> loop over the packets that are ready.\<close>

fun receive_all :: "(f32 \<Rightarrow> real) \<Rightarrow> Packet list \<Rightarrow> client \<Rightarrow> failure + client" where
  "receive_all fv [] s = Inr s"
| "receive_all fv (packet # packets) s =
     (case handle_packet fv packet s of
        Inl e \<Rightarrow> Inl e
      | Inr s' \<Rightarrow> receive_all fv packets s')"

section \<open>The rest of a pass of the game loop\<close>

text \<open>Lines 145--155: the clock is read and every timer moves on.\<close>

definition tick :: "Time \<Rightarrow> client \<Rightarrow> client" where
  "tick dt s =
     s\<lparr>animTimer := animTimer s + dt,
       stateChangeCooldownTimer :=
         (if stateChangeCooldownTimer s > 0 then stateChangeCooldownTimer s - dt
          else stateChangeCooldownTimer s),
       otherPlayersAnimTimer := (\<lambda>pid. map_option (\<lambda>t. t + dt) (otherPlayersAnimTimer s pid))\<rparr>"

text \<open>
  Lines 186--189, for the input sampled in this pass (all flags false without focus).
\<close>

definition face_input :: "PlayerInputState \<Rightarrow> client \<Rightarrow> client" where
  "face_input currentInput s =
     (if right currentInput then s\<lparr>facingRight := True\<rparr>
      else if left currentInput then s\<lparr>facingRight := False\<rparr>
      else s)"

text \<open>Lines 418--432: the state the local player should be in.\<close>

definition targetState :: "PlayerInputState \<Rightarrow> client \<Rightarrow> PlayerAnimState" where
  "targetState currentInput s =
     (if \<not> myIsOnGround s then Jump
      else if left currentInput \<or> right currentInput then Walk
      else Stand)"

text \<open>
  Lines 434--447: the change of state, behind the cooldown. \<^verbatim>\<open>animData[...]\<close> on a
  missing key would yield a value-initialised descriptor.
\<close>

definition change_state :: "PlayerInputState \<Rightarrow> client \<Rightarrow> client" where
  "change_state currentInput s =
     (if currentAnimState s \<noteq> targetState currentInput s \<and> stateChangeCooldownTimer s \<le> 0
      then (let newData = (case animData (targetState currentInput s) of
                             Some d \<Rightarrow> d
                           | None \<Rightarrow> \<lparr>startFrameIndex = 0, frameCount = 0, timePerFrame = 0\<rparr>)
            in s\<lparr>currentFrame := 0, animTimer := 0,
                 currentAnimState := targetState currentInput s,
                 stateChangeCooldownTimer := seconds STATE_CHANGE_COOLDOWN,
                 playerSprite := (playerSprite s)\<lparr>textureRect := frameRect newData 0\<rparr>\<rparr>)
      else s)"

text \<open>
  Lines 450--463: the local frame advance. It is one \<^verbatim>\<open>if\<close>, so a pass of the game
  loop moves the frame index by at most one.
\<close>

definition advance_local :: "client \<Rightarrow> client" where
  "advance_local s =
     (case animData (currentAnimState s) of
        None \<Rightarrow> s
      | Some currentData \<Rightarrow>
          if animTimer s \<ge> seconds (timePerFrame currentData)
          then (let frame = c_mod (currentFrame s + 1) (frameCount currentData)
                in s\<lparr>animTimer := animTimer s - seconds (timePerFrame currentData),
                     currentFrame := frame,
                     playerSprite := (playerSprite s)\<lparr>textureRect := frameRect currentData frame\<rparr>\<rparr>)
          else s)"

text \<open>Line 465.\<close>

definition scale_local :: "client \<Rightarrow> client" where
  "scale_local s = s\<lparr>playerSprite := (playerSprite s)\<lparr>scale := (if facingRight s then 1 else - 1, 1)\<rparr>\<rparr>"

text \<open>
  One pass of the loop over \<^verbatim>\<open>otherPlayers\<close> (lines 469--493), for the key \<open>pid\<close>.
  \<^verbatim>\<open>at\<close> throws \<^verbatim>\<open>std::out_of_range\<close> for a missing key, and nothing catches it.
\<close>

definition animate_other :: "u32 \<Rightarrow> client \<Rightarrow> failure + client" where
  "animate_other pid s =
     (case otherPlayers s pid of
        None \<Rightarrow> Inr s
      | Some sprite \<Rightarrow>
     (case otherPlayersAnimState s pid of
        None \<Rightarrow> Inr s
      | Some otherState \<Rightarrow>
     (case animData otherState of
        None \<Rightarrow> Inr s
      | Some otherData \<Rightarrow>
     (case otherPlayersCurrentFrame s pid of
        None \<Rightarrow> Inl OutOfRange
      | Some otherFrame \<Rightarrow>
     (case otherPlayersAnimTimer s pid of
        None \<Rightarrow> Inl OutOfRange
      | Some otherTimer \<Rightarrow>
          (let advance = (otherTimer \<ge> seconds (timePerFrame otherData));
               frame = (if advance then c_mod (otherFrame + 1) (frameCount otherData) else otherFrame);
               timer = (if advance then otherTimer - seconds (timePerFrame otherData) else otherTimer);
               sprite1 = (if advance then sprite\<lparr>textureRect := frameRect otherData frame\<rparr> else sprite);
               sprite2 = (case otherPlayersFacingRight s pid of
                            None \<Rightarrow> sprite1
                          | Some f \<Rightarrow> sprite1\<lparr>scale := (if f then 1 else - 1, 1)\<rparr>)
           in Inr (s\<lparr>otherPlayers := (otherPlayers s)(pid \<mapsto> sprite2),
                     otherPlayersCurrentFrame := (otherPlayersCurrentFrame s)(pid \<mapsto> frame),
                     otherPlayersAnimTimer := (otherPlayersAnimTimer s)(pid \<mapsto> timer)\<rparr>)))))))"

text \<open>
  The loop of lines 467--494. A pass reads and writes the entries of its own key only, so
  the passes do not interfere and the order of the keys does not matter: every key gets
  the entries its own pass leaves, and the loop fails if one pass does.
\<close>

definition advance_others :: "client \<Rightarrow> failure + client" where
  "advance_others s =
     (if \<exists>pid \<in> dom (otherPlayers s). isl (animate_other pid s) then Inl OutOfRange
      else Inr (s\<lparr>otherPlayers := (\<lambda>pid. otherPlayers (projr (animate_other pid s)) pid),
                  otherPlayersCurrentFrame :=
                    (\<lambda>pid. otherPlayersCurrentFrame (projr (animate_other pid s)) pid),
                  otherPlayersAnimTimer :=
                    (\<lambda>pid. otherPlayersAnimTimer (projr (animate_other pid s)) pid)\<rparr>))"

text \<open>Lines 417--494: what a pass does after the packets.\<close>

definition animate :: "PlayerInputState \<Rightarrow> client \<Rightarrow> failure + client" where
  "animate currentInput s =
     advance_others (scale_local (advance_local (change_state currentInput s)))"

text \<open>
  One pass of the game loop: the elapsed time \<open>dt\<close>, the sampled input and the packets
  that are ready come from outside. Connecting, sending the input, the camera and the
  drawing do not touch the state modelled here. \<open>before_animate\<close> is the pass up to
  line 416, \<open>end_frame\<close> is line 530.
\<close>

definition before_animate ::
  "(f32 \<Rightarrow> real) \<Rightarrow> Time \<Rightarrow> PlayerInputState \<Rightarrow> Packet list \<Rightarrow> client \<Rightarrow> failure + client" where
  "before_animate fv dt currentInput packets s =
     receive_all fv packets (face_input currentInput (tick dt s))"

definition end_frame :: "client \<Rightarrow> client" where
  "end_frame s = s\<lparr>previousX := fst (position (playerSprite s))\<rparr>"

definition frame ::
  "(f32 \<Rightarrow> real) \<Rightarrow> Time \<Rightarrow> PlayerInputState \<Rightarrow> Packet list \<Rightarrow> client \<Rightarrow> failure + client" where
  "frame fv dt currentInput packets s =
     (case before_animate fv dt currentInput packets s of
        Inl e \<Rightarrow> Inl e
      | Inr s1 \<Rightarrow>
          (case animate currentInput s1 of
             Inl e \<Rightarrow> Inl e
           | Inr s2 \<Rightarrow> Inr (end_frame s2)))"

text \<open>Several passes in a row.\<close>

fun frames ::
  "(f32 \<Rightarrow> real) \<Rightarrow> (Time \<times> PlayerInputState \<times> Packet list) list \<Rightarrow> client \<Rightarrow> failure + client" where
  "frames fv [] s = Inr s"
| "frames fv ((dt, currentInput, packets) # rest) s =
     (case frame fv dt currentInput packets s of
        Inl e \<Rightarrow> Inl e
      | Inr s' \<Rightarrow> frames fv rest s')"

section \<open>Notions used to state the properties\<close>

text \<open>The five parallel maps of the remote players have the same keys.\<close>

definition same_keys :: "client \<Rightarrow> bool" where
  "same_keys s =
     (dom (otherPlayersAnimState s) = dom (otherPlayers s) \<and>
      dom (otherPlayersCurrentFrame s) = dom (otherPlayers s) \<and>
      dom (otherPlayersAnimTimer s) = dom (otherPlayers s) \<and>
      dom (otherPlayersFacingRight s) = dom (otherPlayers s))"

text \<open>Everything the registry holds for one ID.\<close>

definition registry_at ::
  "client \<Rightarrow> u32 \<Rightarrow>
     Sprite option \<times> PlayerAnimState option \<times> int option \<times> Time option \<times> bool option" where
  "registry_at s pid =
     (otherPlayers s pid, otherPlayersAnimState s pid, otherPlayersCurrentFrame s pid,
      otherPlayersAnimTimer s pid, otherPlayersFacingRight s pid)"

text \<open>The fields of a packet that the dispatcher accepts as a \<^verbatim>\<open>PlayerState\<close> message.\<close>

definition PlayerState_fields :: "Packet \<Rightarrow> (u32 \<times> f32 \<times> f32 \<times> bool) option" where
  "PlayerState_fields packet =
     (case get_PacketType packet of
        Some (Some PlayerState, p) \<Rightarrow> map_option fst (get_id_x_y_ground p)
      | _ \<Rightarrow> None)"

text \<open>
  The \<^verbatim>\<open>PlayerState\<close> messages of a packet sequence that carry the ID \<open>me\<close>, in order.
\<close>

definition local_states :: "u32 \<Rightarrow> Packet list \<Rightarrow> (u32 \<times> f32 \<times> f32 \<times> bool) list" where
  "local_states me packets =
     filter (\<lambda>m. fst m = me) (List.map_filter PlayerState_fields packets)"

text \<open>The local animation runtime.\<close>

definition local_animation :: "client \<Rightarrow> PlayerAnimState \<times> int \<times> Time" where
  "local_animation s = (currentAnimState s, currentFrame s, animTimer s)"






subsection \<open>Messages as values\<close>

datatype message =
    MsgWelcome u32
  | MsgPlayerState u32 f32 f32 bool
  | MsgPlayerInput PlayerInputState
  | MsgPlayerJoined u32 f32 f32 bool
  | MsgPlayerLeft u32
  | MsgMapData u32 u32 "i32 list"

text \<open>\<open>n\<close> tile codes in a row, as the loops of lines 355--380 read them.\<close>

fun get_tiles :: "nat \<Rightarrow> Packet \<Rightarrow> (i32 list \<times> Packet) option" where
  "get_tiles 0 p = Some ([], p)"
| "get_tiles (Suc n) p =
     (case get_i32 p of
        None \<Rightarrow> None
      | Some (t, p1) \<Rightarrow>
          (case get_tiles n p1 of
             None \<Rightarrow> None
           | Some (ts, p2) \<Rightarrow> Some (t # ts, p2)))"

text \<open>
  Decoding follows the extractions of the source: the tag by the operator of line 74, a
  \<^verbatim>\<open>PlayerInput\<close> body by the operator of line 64, the other bodies by the chains of
  lines 215, 228, 306, 327, 348 and 360. It returns the message and the bytes left over.
\<close>

definition decode :: "Packet \<Rightarrow> (message \<times> Packet) option" where
  "decode packet =
     (case get_PacketType packet of
        None \<Rightarrow> None
      | Some (None, p) \<Rightarrow> None
      | Some (Some Welcome, p) \<Rightarrow>
          (case get_u32 p of None \<Rightarrow> None | Some (i, r) \<Rightarrow> Some (MsgWelcome i, r))
      | Some (Some PlayerState, p) \<Rightarrow>
          (case get_id_x_y_ground p of
             None \<Rightarrow> None
           | Some ((i, x, y, g), r) \<Rightarrow> Some (MsgPlayerState i x y g, r))
      | Some (Some PlayerInput, p) \<Rightarrow>
          (case get_PlayerInputState p of
             None \<Rightarrow> None
           | Some (input, r) \<Rightarrow> Some (MsgPlayerInput input, r))
      | Some (Some PlayerJoined, p) \<Rightarrow>
          (case get_id_x_y_ground p of
             None \<Rightarrow> None
           | Some ((i, x, y, g), r) \<Rightarrow> Some (MsgPlayerJoined i x y g, r))
      | Some (Some PlayerLeft, p) \<Rightarrow>
          (case get_u32 p of None \<Rightarrow> None | Some (i, r) \<Rightarrow> Some (MsgPlayerLeft i, r))
      | Some (Some MapData, p) \<Rightarrow>
          (case get_width_height p of
             None \<Rightarrow> None
           | Some ((w, h), p1) \<Rightarrow>
               if sint w < 0 \<or> sint h < 0 then None
               else (case get_tiles (nat (sint h) * nat (sint w)) p1 of
                       None \<Rightarrow> None
                     | Some (ts, r) \<Rightarrow> Some (MsgMapData w h ts, r))))"

text \<open>
  Modelled from the spec: the encoders of the five messages the server sends (\<^verbatim>\<open>Welcome\<close>,
  \<^verbatim>\<open>PlayerState\<close>, \<^verbatim>\<open>PlayerJoined\<close>, \<^verbatim>\<open>PlayerLeft\<close>, \<^verbatim>\<open>MapData\<close>) are not in the
  client's source, which only decodes them. They follow the field layouts of section 4.1
  of the specification, written with the same packet primitives. The \<^verbatim>\<open>PlayerInput\<close>
  encoder is line 195 of the source.
\<close>

fun encode :: "message \<Rightarrow> u8 list" where
  "encode (MsgWelcome i) = put_PacketType Welcome @ put_u32 i"
| "encode (MsgPlayerState i x y g) =
     put_PacketType PlayerState @ put_u32 i @ put_f32 x @ put_f32 y @ put_bool g"
| "encode (MsgPlayerInput input) = put_PacketType PlayerInput @ put_PlayerInputState input"
| "encode (MsgPlayerJoined i x y g) =
     put_PacketType PlayerJoined @ put_u32 i @ put_f32 x @ put_f32 y @ put_bool g"
| "encode (MsgPlayerLeft i) = put_PacketType PlayerLeft @ put_u32 i"
| "encode (MsgMapData w h ts) =
     put_PacketType MapData @ put_u32 w @ put_u32 h @ concat (map put_i32 ts)"

text \<open>
  A message value is well formed when a \<^verbatim>\<open>MapData\<close> carries as many tile codes as its
  dimensions say; the dimensions are the ones the client reads, signed 32-bit numbers.
\<close>

fun wf_message :: "message \<Rightarrow> bool" where
  "wf_message (MsgMapData w h ts) =
     (0 \<le> sint w \<and> 0 \<le> sint h \<and> length ts = nat (sint h) * nat (sint w))"
| "wf_message _ = True"

text \<open>\<^verbatim>\<open>encode(decode(bytes))\<close>, where decoding succeeds and uses up the bytes.\<close>

definition recode :: "u8 list \<Rightarrow> u8 list option" where
  "recode bytes =
     (case decode bytes of
        Some (m, []) \<Rightarrow> Some (encode m)
      | _ \<Rightarrow> None)"

section \<open>The shape of a dispatcher step\<close>

lemma on_MapData_shape:
  assumes "on_MapData packet s = Inr s'"
  shows "\<exists>w h g sh l. s' = s\<lparr>clientMapWidth := w, clientMapHeight := h, clientTileMap := g,
                                mapShapes := sh, mapLoaded := l\<rparr>"
proof (cases "get_width_height packet")
  case None
  with assms have "s' = s" by (simp add: on_MapData_def)
  then have "s' = s\<lparr>clientMapWidth := clientMapWidth s, clientMapHeight := clientMapHeight s,
      clientTileMap := clientTileMap s, mapShapes := mapShapes s, mapLoaded := mapLoaded s\<rparr>"
    by simp
  then show ?thesis by blast
next
  case (Some a)
  then obtain width height p where g: "get_width_height packet = Some ((width, height), p)"
    by (cases a) auto
  show ?thesis
  proof (cases "read_rows (sint width) (sint height) 0 p
                  (resize_rows (nat (sint height)) (replicate (nat (sint width)) 0) (clientTileMap s)) []")
    case (Inl e)
    with g assms show ?thesis by (simp add: on_MapData_def Let_def split: if_splits)
  next
    case (Inr r)
    then obtain ok grid shapes where r: "r = (ok, grid, shapes)" by (cases r) auto
    with g Inr assms have "s' = s\<lparr>clientMapWidth := sint width, clientMapHeight := sint height,
        clientTileMap := grid, mapShapes := shapes, mapLoaded := (if ok then True else mapLoaded s)\<rparr>"
      by (simp add: on_MapData_def Let_def split: if_splits)
    then show ?thesis by blast
  qed
qed

lemma handle_packet_cases [consumes 1, case_names Ignored Welcome PlayerState PlayerJoined PlayerLeft MapData]:
  assumes "handle_packet fv packet s = Inr s'"
    and "P s"
    and "\<And>i. P (on_Welcome i s)"
    and "\<And>pid x y g. P (on_PlayerState pid x y g s)"
    and "\<And>pid x y g. P (on_PlayerJoined pid x y g s)"
    and "\<And>pid. P (on_PlayerLeft pid s)"
    and "\<And>p s''. on_MapData p s = Inr s'' \<Longrightarrow> P s''"
  shows "P s'"
proof (cases "get_PacketType packet")
  case None
  with assms(1,2) show ?thesis by (simp add: handle_packet_def)
next
  case (Some a)
  then obtain type p where g: "get_PacketType packet = Some (type, p)" by (cases a) simp
  show ?thesis
  proof (cases type)
    case None
    with g assms(1,2) show ?thesis by (simp add: handle_packet_def)
  next
    case (Some t)
    show ?thesis
    proof (cases t)
      case Welcome
      with g Some assms(1) have "s' = s \<or> (\<exists>i. s' = on_Welcome i s)"
        by (auto simp: handle_packet_def split: option.splits)
      with assms(2,3) show ?thesis by blast
    next
      case PlayerState
      with g Some assms(1) have "s' = s \<or> (\<exists>pid x y g. s' = on_PlayerState pid x y g s)"
        by (auto simp: handle_packet_def split: option.splits)
      with assms(2,4) show ?thesis by blast
    next
      case PlayerInput
      with g Some assms(1,2) show ?thesis by (simp add: handle_packet_def)
    next
      case PlayerJoined
      with g Some assms(1) have "s' = s \<or> (\<exists>pid x y g. s' = on_PlayerJoined pid x y g s)"
        by (auto simp: handle_packet_def split: option.splits)
      with assms(2,5) show ?thesis by blast
    next
      case PlayerLeft
      with g Some assms(1) have "s' = s \<or> (\<exists>pid. s' = on_PlayerLeft pid s)"
        by (auto simp: handle_packet_def split: option.splits)
      with assms(2,6) show ?thesis by blast
    next
      case MapData
      with g Some assms(1) have "on_MapData p s = Inr s'"
        by (simp add: handle_packet_def)
      then show ?thesis by (rule assms(7))
    qed
  qed
qed

section \<open>The five maps of the registry\<close>

lemma same_keys_on_Welcome: "same_keys s \<Longrightarrow> same_keys (on_Welcome i s)"
  by (simp add: same_keys_def on_Welcome_def)

lemma same_keys_update_other:
  assumes "same_keys s" "pid \<in> dom (otherPlayers s)"
  shows "same_keys (update_other pid x y g sp s)"
  using assms unfolding same_keys_def update_other_def Let_def
  by (simp add: insert_absorb)

lemma same_keys_create_other: "same_keys s \<Longrightarrow> same_keys (create_other pid s)"
  unfolding same_keys_def create_other_def by simp

lemma same_keys_on_PlayerState:
  assumes "same_keys s"
  shows "same_keys (on_PlayerState pid x y g s)"
proof (cases "pid = myPlayerId s")
  case True
  with assms show ?thesis by (simp add: on_PlayerState_def same_keys_def)
next
  case False
  show ?thesis
  proof (cases "otherPlayers s pid")
    case None
    have "same_keys (update_other pid x y g (Sprite_new (playerTexture s)) (create_other pid s))"
    proof (rule same_keys_update_other)
      show "same_keys (create_other pid s)" using assms by (rule same_keys_create_other)
      show "pid \<in> dom (otherPlayers (create_other pid s))" by (simp add: create_other_def)
    qed
    with False None show ?thesis by (simp add: on_PlayerState_def)
  next
    case (Some sp)
    then have "pid \<in> dom (otherPlayers s)" by blast
    with assms have "same_keys (update_other pid x y g sp s)"
      by (rule same_keys_update_other)
    with False Some show ?thesis by (simp add: on_PlayerState_def)
  qed
qed

lemma same_keys_on_PlayerJoined: "same_keys s \<Longrightarrow> same_keys (on_PlayerJoined pid x y g s)"
  unfolding same_keys_def on_PlayerJoined_def by simp

lemma same_keys_on_PlayerLeft: "same_keys s \<Longrightarrow> same_keys (on_PlayerLeft pid s)"
  unfolding same_keys_def on_PlayerLeft_def by simp

lemma same_keys_on_MapData:
  assumes "same_keys s" "on_MapData p s = Inr s'"
  shows "same_keys s'"
proof -
  from on_MapData_shape [OF assms(2)] obtain w h g sh l where
    "s' = s\<lparr>clientMapWidth := w, clientMapHeight := h, clientTileMap := g,
           mapShapes := sh, mapLoaded := l\<rparr>" by blast
  with assms(1) show ?thesis by (simp add: same_keys_def)
qed

lemma same_keys_handle_packet:
  assumes "same_keys s" "handle_packet fv p s = Inr s'"
  shows "same_keys s'"
proof (rule handle_packet_cases [OF assms(2)])
  show "same_keys s" by (rule assms(1))
  show "same_keys (on_Welcome i s)" for i using assms(1) by (rule same_keys_on_Welcome)
  show "same_keys (on_PlayerState pid x y g s)" for pid x y g
    using assms(1) by (rule same_keys_on_PlayerState)
  show "same_keys (on_PlayerJoined pid x y g s)" for pid x y g
    using assms(1) by (rule same_keys_on_PlayerJoined)
  show "same_keys (on_PlayerLeft pid s)" for pid using assms(1) by (rule same_keys_on_PlayerLeft)
  show "same_keys s''" if "on_MapData p' s = Inr s''" for p' s''
    using assms(1) that by (rule same_keys_on_MapData)
qed

lemma same_keys_receive_all:
  "same_keys s \<Longrightarrow> receive_all fv ps s = Inr s' \<Longrightarrow> same_keys s'"
proof (induction ps arbitrary: s)
  case Nil
  then show ?thesis by simp
next
  case (Cons p ps)
  from Cons.prems(2) obtain s1 where h: "handle_packet fv p s = Inr s1"
    and r: "receive_all fv ps s1 = Inr s'"
    by (auto split: sum.splits)
  from same_keys_handle_packet [OF Cons.prems(1) h] r show ?thesis
    by (rule Cons.IH)
qed

lemma animate_other_doms:
  assumes "animate_other pid s = Inr s1"
  shows "dom (otherPlayers s1) = dom (otherPlayers s)"
    "dom (otherPlayersCurrentFrame s1) = dom (otherPlayersCurrentFrame s)"
    "dom (otherPlayersAnimTimer s1) = dom (otherPlayersAnimTimer s)"
  using assms unfolding animate_other_def Let_def
  by (auto split: option.splits if_splits)

lemma animate_other_at:
  assumes "animate_other pid s = Inr s1"
  shows "(otherPlayers s1 pid = None) = (otherPlayers s pid = None)"
    "(otherPlayersCurrentFrame s1 pid = None) = (otherPlayersCurrentFrame s pid = None)"
    "(otherPlayersAnimTimer s1 pid = None) = (otherPlayersAnimTimer s pid = None)"
  using assms unfolding animate_other_def Let_def
  by (auto split: option.splits if_splits)

lemma animate_other_total:
  assumes "same_keys s"
  shows "\<not> isl (animate_other pid s)"
proof (cases "otherPlayers s pid")
  case None
  then show ?thesis by (simp add: animate_other_def)
next
  case (Some sp)
  then have "pid \<in> dom (otherPlayers s)" by blast
  with assms have "pid \<in> dom (otherPlayersCurrentFrame s)" "pid \<in> dom (otherPlayersAnimTimer s)"
    by (simp_all add: same_keys_def)
  then obtain f t where "otherPlayersCurrentFrame s pid = Some f" "otherPlayersAnimTimer s pid = Some t"
    by blast
  then show ?thesis by (simp add: animate_other_def Let_def split: option.splits)
qed

lemma advance_others_Inr:
  assumes "advance_others s = Inr s'"
  shows "s' = s\<lparr>otherPlayers := (\<lambda>pid. otherPlayers (projr (animate_other pid s)) pid),
                  otherPlayersCurrentFrame :=
                    (\<lambda>pid. otherPlayersCurrentFrame (projr (animate_other pid s)) pid),
                  otherPlayersAnimTimer :=
                    (\<lambda>pid. otherPlayersAnimTimer (projr (animate_other pid s)) pid)\<rparr>"
    and "\<And>pid. pid \<in> dom (otherPlayers s) \<Longrightarrow> \<not> isl (animate_other pid s)"
  using assms unfolding advance_others_def by (auto split: if_splits)

lemma animate_other_absent:
  "otherPlayers s pid = None \<Longrightarrow> animate_other pid s = Inr s"
  by (simp add: animate_other_def)

lemma advance_others_pointwise:
  assumes "advance_others s = Inr s'"
  shows "\<exists>s1. animate_other pid s = Inr s1 \<and> otherPlayers s' pid = otherPlayers s1 pid
     \<and> otherPlayersCurrentFrame s' pid = otherPlayersCurrentFrame s1 pid
     \<and> otherPlayersAnimTimer s' pid = otherPlayersAnimTimer s1 pid"
proof -
  have "\<not> isl (animate_other pid s)"
  proof (cases "otherPlayers s pid")
    case None
    then show ?thesis by (simp add: animate_other_absent)
  next
    case (Some a)
    then have "pid \<in> dom (otherPlayers s)" by blast
    then show ?thesis by (rule advance_others_Inr(2) [OF assms])
  qed
  then obtain s1 where s1: "animate_other pid s = Inr s1" by (cases "animate_other pid s") auto
  with advance_others_Inr(1) [OF assms] show ?thesis by simp
qed

lemma same_keys_advance_others:
  assumes "same_keys s" "advance_others s = Inr s'"
  shows "same_keys s'"
proof -
  have st: "otherPlayersAnimState s' = otherPlayersAnimState s"
    and fc: "otherPlayersFacingRight s' = otherPlayersFacingRight s"
    using advance_others_Inr(1) [OF assms(2)] by simp_all
  have pt: "(otherPlayers s' pid = None) = (otherPlayers s pid = None)
      \<and> (otherPlayersCurrentFrame s' pid = None) = (otherPlayersCurrentFrame s pid = None)
      \<and> (otherPlayersAnimTimer s' pid = None) = (otherPlayersAnimTimer s pid = None)" for pid
    using advance_others_pointwise [OF assms(2), of pid] animate_other_at [of pid s] by auto
  have "dom (otherPlayers s') = dom (otherPlayers s)"
    "dom (otherPlayersCurrentFrame s') = dom (otherPlayersCurrentFrame s)"
    "dom (otherPlayersAnimTimer s') = dom (otherPlayersAnimTimer s)"
    using pt by (auto simp: dom_def)
  with st fc assms(1) show ?thesis by (simp add: same_keys_def)
qed

lemma advance_others_total:
  assumes "same_keys s"
  shows "\<exists>s'. advance_others s = Inr s'"
  using animate_other_total [OF assms] by (simp add: advance_others_def)

lemma same_keys_tick: "same_keys s \<Longrightarrow> same_keys (tick dt s)"
  by (simp add: same_keys_def tick_def dom_def)

lemma same_keys_face_input: "same_keys s \<Longrightarrow> same_keys (face_input i s)"
  by (simp add: same_keys_def face_input_def)

lemma same_keys_change_state: "same_keys s \<Longrightarrow> same_keys (change_state i s)"
  by (simp add: same_keys_def change_state_def Let_def)

lemma same_keys_advance_local: "same_keys s \<Longrightarrow> same_keys (advance_local s)"
  by (simp add: same_keys_def advance_local_def Let_def split: option.splits)

lemma same_keys_scale_local: "same_keys s \<Longrightarrow> same_keys (scale_local s)"
  by (simp add: same_keys_def scale_local_def)

lemma same_keys_animate:
  assumes "same_keys s" "animate i s = Inr s'"
  shows "same_keys s'"
  using assms(2) unfolding animate_def
  by (rule same_keys_advance_others [rotated])
     (intro same_keys_scale_local same_keys_advance_local same_keys_change_state assms(1))

lemma same_keys_frame:
  assumes "same_keys s" "frame fv dt i ps s = Inr s'"
  shows "same_keys s'"
proof -
  from assms(2) obtain s1 s2 where r: "receive_all fv ps (face_input i (tick dt s)) = Inr s1"
    and a: "animate i s1 = Inr s2" and e: "s' = end_frame s2"
    by (auto simp: frame_def before_animate_def split: sum.splits)
  have "same_keys s1"
    by (rule same_keys_receive_all [OF _ r]) (intro same_keys_face_input same_keys_tick assms(1))
  then have "same_keys s2" using a by (rule same_keys_animate)
  with e show ?thesis by (simp add: same_keys_def end_frame_def)
qed

lemma same_keys_frames:
  "same_keys s \<Longrightarrow> frames fv fs s = Inr s' \<Longrightarrow> same_keys s'"
proof (induction fs arbitrary: s)
  case Nil
  then show ?case by simp
next
  case (Cons f fs)
  obtain dt i ps where f: "f = (dt, i, ps)" by (cases f) auto
  with Cons.prems(2) obtain s1 where h: "frame fv dt i ps s = Inr s1"
    and r: "frames fv fs s1 = Inr s'"
    by (auto split: sum.splits)
  from same_keys_frame [OF Cons.prems(1) h] r show ?case by (rule Cons.IH)
qed

lemma same_keys_initial: "same_keys (initial ts)"
  by (simp add: same_keys_def initial_def)

text \<open>
  C10. After any number of passes of the game loop from the start of the program, and any
  further sequence of received packets, the sprite, state, frame, timer and facing maps
  of the remote players have the same key set.
\<close>

theorem parallel_maps_same_keys:
  assumes "frames fv fs (initial ts) = Inr s" and "receive_all fv ps s = Inr s'"
  shows "same_keys s'"
  by (rule same_keys_receive_all [OF same_keys_frames [OF same_keys_initial assms(1)] assms(2)])

lemmas packet_defs = handle_packet_def get_PacketType_def PacketType_of_u8_def
  get_id_x_y_ground_def get_bool_def get_width_height_def get_i32_def

lemmas pass_defs = frame_def before_animate_def end_frame_def tick_def face_input_def
  animate_def advance_others_def animate_other_def scale_local_def advance_local_def
  change_state_def targetState_def seconds_def f_0_1_def f_0_18_def
  STATE_CHANGE_COOLDOWN_def

theorem parallel_maps_same_keys_witness:
  "\<exists>s s'. frames (\<lambda>b. 0)
            [(16000, \<lparr>up = False, down = False, left = False, right = False, jump = False\<rparr>,
              [[3, 0, 0, 0, 7, 0, 0, 0, 0, 0, 0, 0, 0, 1]])] (initial (512, 512)) = Inr s
     \<and> receive_all (\<lambda>b. 0) [[1, 0, 0, 0, 9, 0, 0, 0, 0, 0, 0, 0, 0, 1], [4, 0, 0, 0, 7]] s = Inr s'
     \<and> same_keys s'"
proof -
  obtain s where s: "frames (\<lambda>b. 0)
      [(16000, \<lparr>up = False, down = False, left = False, right = False, jump = False\<rparr>,
        [[3, 0, 0, 0, 7, 0, 0, 0, 0, 0, 0, 0, 0, 1]])] (initial (512, 512)) = Inr s"
    by (simp add: pass_defs packet_defs initial_def on_PlayerJoined_def ntohl_def Let_def)
  obtain s' where s': "receive_all (\<lambda>b. 0)
      [[1, 0, 0, 0, 9, 0, 0, 0, 0, 0, 0, 0, 0, 1], [4, 0, 0, 0, 7]] s = Inr s'"
    by (simp add: packet_defs)
  from s s' parallel_maps_same_keys [OF s s'] show ?thesis by blast
qed

section \<open>Remote players joining and moving\<close>

text \<open>
  C7. A second \<^verbatim>\<open>PlayerJoined\<close> for the same ID changes nothing, whatever it carries. For
  a remote ID that is new, the first one adds exactly that key, with the position of the
  message, the state seeded from the ground flag, frame 0, timer zero and facing right.
\<close>

theorem PlayerJoined_twice_one_record:
  "on_PlayerJoined pid x' y' g' (on_PlayerJoined pid x y g s) = on_PlayerJoined pid x y g s
   \<and> (pid \<noteq> myPlayerId s \<and> otherPlayers s pid = None \<longrightarrow>
        dom (otherPlayers (on_PlayerJoined pid x y g s)) = insert pid (dom (otherPlayers s))
        \<and> (\<forall>q. q \<noteq> pid \<longrightarrow> registry_at (on_PlayerJoined pid x y g s) q = registry_at s q)
        \<and> registry_at (on_PlayerJoined pid x y g s) pid =
            (Some ((Sprite_new (playerTexture s))\<lparr>position := (x, y)\<rparr>),
             Some (if g then Stand else Jump), Some 0, Some 0, Some True))"
  by (simp add: on_PlayerJoined_def registry_at_def)

theorem PlayerJoined_twice_one_record_witness:
  "on_PlayerJoined 7 1 2 False (on_PlayerJoined 7 30 40 True (initial (512, 512)))
     = on_PlayerJoined 7 30 40 True (initial (512, 512))
   \<and> dom (otherPlayers (on_PlayerJoined 7 1 2 False (on_PlayerJoined 7 30 40 True (initial (512, 512))))) = {7}
   \<and> registry_at (on_PlayerJoined 7 1 2 False (on_PlayerJoined 7 30 40 True (initial (512, 512)))) 7 =
        (Some ((Sprite_new (512, 512))\<lparr>position := (30, 40)\<rparr>), Some Stand, Some 0, Some 0, Some True)"
proof -
  have h: "(7 :: u32) \<noteq> myPlayerId (initial (512, 512)) \<and> otherPlayers (initial (512, 512)) 7 = None"
    by (simp add: initial_def)
  from PlayerJoined_twice_one_record [of 7 1 2 False 30 40 True "initial (512, 512)"] h
  show ?thesis by (simp add: initial_def)
qed

text \<open>
  C4. For a remote player already in the registry, a \<^verbatim>\<open>PlayerState\<close> whose x is 5 above
  the recorded x and whose ground flag is true leaves the player in state Walk, facing
  right. The decision reads the flag of the message: the local flag \<open>myIsOnGround\<close> is
  neither read nor written, whatever its value.
\<close>

theorem remote_walks_right:
  assumes "pid \<noteq> myPlayerId s" and "otherPlayers s pid = Some sprite"
    and "x = fst (position sprite) + 5"
  shows "otherPlayersAnimState (on_PlayerState pid x y True s) pid = Some Walk
     \<and> otherPlayersFacingRight (on_PlayerState pid x y True s) pid = Some True
     \<and> on_PlayerState pid x y True (s\<lparr>myIsOnGround := b\<rparr>)
         = (on_PlayerState pid x y True s)\<lparr>myIsOnGround := b\<rparr>
     \<and> myIsOnGround (on_PlayerState pid x y True s) = myIsOnGround s"
  using assms by (simp add: on_PlayerState_def update_other_def Let_def f_0_1_def)

theorem remote_walks_right_witness:
  "otherPlayersAnimState
     (on_PlayerState 7 35 40 True ((on_PlayerJoined 7 30 40 True (initial (512, 512)))\<lparr>myIsOnGround := False\<rparr>)) 7
     = Some Walk
   \<and> otherPlayersFacingRight
     (on_PlayerState 7 35 40 True ((on_PlayerJoined 7 30 40 True (initial (512, 512)))\<lparr>myIsOnGround := False\<rparr>)) 7
     = Some True"
proof -
  let ?s = "(on_PlayerJoined 7 30 40 True (initial (512, 512)))\<lparr>myIsOnGround := False\<rparr>"
  have a: "(7 :: u32) \<noteq> myPlayerId ?s" by (simp add: on_PlayerJoined_def initial_def)
  have b: "otherPlayers ?s 7 = Some ((Sprite_new (512, 512))\<lparr>position := (30, 40)\<rparr>)"
    by (simp add: on_PlayerJoined_def initial_def)
  have c: "(35 :: real) = fst (position ((Sprite_new (512, 512))\<lparr>position := (30, 40)\<rparr>)) + 5"
    by simp
  from remote_walks_right [OF a b c, of 40 True] show ?thesis by blast
qed

text \<open>
  C3 (what the code does). The first \<^verbatim>\<open>PlayerState\<close> for a remote ID creates the record
  and then compares x with the x of the sprite just constructed, which is 0: with the
  ground flag true the state is Walk as soon as \<open>|x|\<close> exceeds \<^verbatim>\<open>0.1f\<close>, and the facing
  is left for a negative x.
\<close>

theorem first_PlayerState_uses_origin:
  assumes "pid \<noteq> myPlayerId s" and "otherPlayers s pid = None"
  shows "otherPlayersAnimState (on_PlayerState pid x y True s) pid
           = Some (if \<bar>x\<bar> > f_0_1 then Walk else Stand)
     \<and> otherPlayersFacingRight (on_PlayerState pid x y True s) pid = Some (\<not> x < 0)"
  using assms
  by (simp add: on_PlayerState_def update_other_def create_other_def Sprite_new_def Let_def)

theorem first_PlayerState_uses_origin_witness:
  "otherPlayersAnimState (on_PlayerState 7 100 50 True (initial (512, 512))) 7 = Some Walk
   \<and> otherPlayersFacingRight (on_PlayerState 7 (- 100) 50 True (initial (512, 512))) 7 = Some False"
proof -
  have a: "(7 :: u32) \<noteq> myPlayerId (initial (512, 512))" by (simp add: initial_def)
  have b: "otherPlayers (initial (512, 512)) 7 = None" by (simp add: initial_def)
  from first_PlayerState_uses_origin [OF a b, of 100 50]
    first_PlayerState_uses_origin [OF a b, of "- 100" 50]
  show ?thesis by (simp add: f_0_1_def)
qed

section \<open>The local player and the registry\<close>

lemma registry_at_update_other:
  "q \<noteq> pid \<Longrightarrow> registry_at (update_other pid x y g sp s) q = registry_at s q"
  by (simp add: registry_at_def update_other_def Let_def)

lemma registry_at_create_other:
  "q \<noteq> pid \<Longrightarrow> registry_at (create_other pid s) q = registry_at s q"
  by (simp add: registry_at_def create_other_def)

lemma registry_at_on_PlayerState:
  "q \<noteq> pid \<or> pid = myPlayerId s \<Longrightarrow> registry_at (on_PlayerState pid x y g s) q = registry_at s q"
  by (auto simp: on_PlayerState_def registry_at_update_other registry_at_create_other
      split: option.splits) (simp_all add: registry_at_def)

lemma registry_at_on_PlayerJoined:
  "q \<noteq> pid \<or> pid = myPlayerId s \<Longrightarrow> registry_at (on_PlayerJoined pid x y g s) q = registry_at s q"
  by (auto simp: on_PlayerJoined_def registry_at_def)

lemma registry_at_on_PlayerLeft:
  "q \<noteq> pid \<or> pid = myPlayerId s \<Longrightarrow> registry_at (on_PlayerLeft pid s) q = registry_at s q"
  by (auto simp: on_PlayerLeft_def registry_at_def)

lemma registry_at_on_MapData:
  assumes "on_MapData p s = Inr s'"
  shows "registry_at s' q = registry_at s q"
proof -
  from on_MapData_shape [OF assms] obtain w h g sh l where
    "s' = s\<lparr>clientMapWidth := w, clientMapHeight := h, clientTileMap := g,
           mapShapes := sh, mapLoaded := l\<rparr>" by blast
  then show ?thesis by (simp add: registry_at_def)
qed

lemma handle_packet_keeps_local_id_out:
  assumes "handle_packet fv packet s = Inr s'"
  shows "registry_at s' (myPlayerId s) = registry_at s (myPlayerId s)"
proof (rule handle_packet_cases [OF assms])
  show "registry_at s (myPlayerId s) = registry_at s (myPlayerId s)" by simp
  show "registry_at (on_Welcome i s) (myPlayerId s) = registry_at s (myPlayerId s)" for i
    by (simp add: on_Welcome_def registry_at_def)
  show "registry_at (on_PlayerState pid x y g s) (myPlayerId s) = registry_at s (myPlayerId s)"
    for pid x y g by (rule registry_at_on_PlayerState) blast
  show "registry_at (on_PlayerJoined pid x y g s) (myPlayerId s) = registry_at s (myPlayerId s)"
    for pid x y g by (rule registry_at_on_PlayerJoined) blast
  show "registry_at (on_PlayerLeft pid s) (myPlayerId s) = registry_at s (myPlayerId s)"
    for pid by (rule registry_at_on_PlayerLeft) blast
  show "registry_at s'' (myPlayerId s) = registry_at s (myPlayerId s)"
    if "on_MapData p' s = Inr s''" for p' s''
    using that by (rule registry_at_on_MapData)
qed

lemma myPlayerId_on_MapData:
  assumes "on_MapData p s = Inr s'"
  shows "myPlayerId s' = myPlayerId s"
proof -
  from on_MapData_shape [OF assms] obtain w h g sh l where
    "s' = s\<lparr>clientMapWidth := w, clientMapHeight := h, clientTileMap := g,
           mapShapes := sh, mapLoaded := l\<rparr>" by blast
  then show ?thesis by simp
qed

lemma myPlayerId_on_PlayerState [simp]: "myPlayerId (on_PlayerState pid x y g s) = myPlayerId s"
  by (simp add: on_PlayerState_def update_other_def create_other_def Let_def split: option.splits)

lemma myPlayerId_on_PlayerJoined [simp]: "myPlayerId (on_PlayerJoined pid x y g s) = myPlayerId s"
  by (simp add: on_PlayerJoined_def)

lemma myPlayerId_on_PlayerLeft [simp]: "myPlayerId (on_PlayerLeft pid s) = myPlayerId s"
  by (simp add: on_PlayerLeft_def)

lemma handle_packet_not_Welcome:
  assumes "handle_packet fv packet s = Inr s'"
    and "\<forall>r. get_PacketType packet \<noteq> Some (Some Welcome, r)"
  shows "myPlayerId s' = myPlayerId s"
proof (cases "get_PacketType packet")
  case None
  with assms(1) show ?thesis by (simp add: handle_packet_def)
next
  case (Some a)
  then obtain type p where g: "get_PacketType packet = Some (type, p)" by (cases a) simp
  with assms(2) have nw: "type \<noteq> Some Welcome" by blast
  show ?thesis
  proof (cases type)
    case None
    with g assms(1) show ?thesis by (simp add: handle_packet_def)
  next
    case (Some t)
    with nw g assms(1) show ?thesis
      by (cases t) (auto simp: handle_packet_def myPlayerId_on_MapData split: option.splits)
  qed
qed

lemma receive_all_keeps_local_id_out:
  assumes "receive_all fv packets s = Inr s'"
    and "\<forall>packet \<in> set packets. \<forall>r. get_PacketType packet \<noteq> Some (Some Welcome, r)"
    and "otherPlayers s (myPlayerId s) = None"
  shows "myPlayerId s' = myPlayerId s \<and> otherPlayers s' (myPlayerId s') = None"
  using assms
proof (induction packets arbitrary: s)
  case Nil
  then show ?case by simp
next
  case (Cons p ps)
  from Cons.prems(1) obtain s1 where h: "handle_packet fv p s = Inr s1"
    and r: "receive_all fv ps s1 = Inr s'"
    by (auto split: sum.splits)
  from Cons.prems(2) have nw: "\<forall>r. get_PacketType p \<noteq> Some (Some Welcome, r)" by simp
  have id1: "myPlayerId s1 = myPlayerId s" by (rule handle_packet_not_Welcome [OF h nw])
  from handle_packet_keeps_local_id_out [OF h] Cons.prems(3) id1
  have a: "otherPlayers s1 (myPlayerId s1) = None" by (simp add: registry_at_def)
  from Cons.prems(2)
  have b: "\<forall>packet \<in> set ps. \<forall>r. get_PacketType packet \<noteq> Some (Some Welcome, r)" by simp
  have "myPlayerId s' = myPlayerId s1 \<and> otherPlayers s' (myPlayerId s') = None"
    by (rule Cons.IH [OF r b a])
  with id1 show ?case by metis
qed

lemma receive_all_append:
  "receive_all fv (ps @ qs) s =
     (case receive_all fv ps s of Inl e \<Rightarrow> Inl e | Inr s1 \<Rightarrow> receive_all fv qs s1)"
  by (induction ps arbitrary: s) (simp_all split: sum.splits)

lemma handle_packet_myPlayerId:
  assumes "handle_packet fv packet s = Inr s'"
  shows "myPlayerId s' = myPlayerId s \<or> (\<forall>q. registry_at s' q = registry_at s q)"
proof (rule handle_packet_cases [OF assms])
  show "myPlayerId s = myPlayerId s \<or> (\<forall>q. registry_at s q = registry_at s q)" by simp
  show "myPlayerId (on_Welcome i s) = myPlayerId s
      \<or> (\<forall>q. registry_at (on_Welcome i s) q = registry_at s q)" for i
    by (simp add: on_Welcome_def registry_at_def)
  show "myPlayerId (on_PlayerState pid x y g s) = myPlayerId s
      \<or> (\<forall>q. registry_at (on_PlayerState pid x y g s) q = registry_at s q)" for pid x y g
    by simp
  show "myPlayerId (on_PlayerJoined pid x y g s) = myPlayerId s
      \<or> (\<forall>q. registry_at (on_PlayerJoined pid x y g s) q = registry_at s q)" for pid x y g
    by simp
  show "myPlayerId (on_PlayerLeft pid s) = myPlayerId s
      \<or> (\<forall>q. registry_at (on_PlayerLeft pid s) q = registry_at s q)" for pid
    by simp
  show "myPlayerId s'' = myPlayerId s \<or> (\<forall>q. registry_at s'' q = registry_at s q)"
    if "on_MapData p' s = Inr s''" for p' s''
    using myPlayerId_on_MapData [OF that] by simp
qed

lemma handle_packet_keeps_new_local_id_out:
  assumes "handle_packet fv packet s = Inr s'"
  shows "registry_at s' (myPlayerId s') = registry_at s (myPlayerId s')"
  using handle_packet_myPlayerId [OF assms] handle_packet_keeps_local_id_out [OF assms]
  by auto

lemma receive_all_snoc:
  "receive_all fv (ps @ [p]) s = Inr s' \<longleftrightarrow>
     (\<exists>s1. receive_all fv ps s = Inr s1 \<and> handle_packet fv p s1 = Inr s')"
  by (auto simp: receive_all_append split: sum.splits)

lemma registered_key_was_inserted:
  assumes "receive_all fv packets s = Inr s'" and "otherPlayers s' k \<noteq> None"
  shows "otherPlayers s k \<noteq> None \<or>
     (\<exists>n < length packets. \<exists>s1 s2.
        receive_all fv (take n packets) s = Inr s1 \<and>
        handle_packet fv (packets ! n) s1 = Inr s2 \<and>
        otherPlayers s1 k = None \<and> otherPlayers s2 k \<noteq> None)"
  using assms
proof (induction packets arbitrary: s' rule: rev_induct)
  case Nil
  then show ?case by simp
next
  case (snoc p ps)
  from snoc.prems(1) obtain s1 where r: "receive_all fv ps s = Inr s1"
    and h: "handle_packet fv p s1 = Inr s'"
    by (auto simp: receive_all_snoc)
  show ?case
  proof (cases "otherPlayers s1 k = None")
    case True
    have "length ps < length (ps @ [p])" by simp
    moreover have "receive_all fv (take (length ps) (ps @ [p])) s = Inr s1" using r by simp
    moreover have "handle_packet fv ((ps @ [p]) ! length ps) s1 = Inr s'" using h by simp
    ultimately show ?thesis using True snoc.prems(2) by blast
  next
    case False
    from snoc.IH [OF r False] show ?thesis
    proof
      assume "otherPlayers s k \<noteq> None"
      then show ?thesis by simp
    next
      assume "\<exists>n < length ps. \<exists>s1 s2.
        receive_all fv (take n ps) s = Inr s1 \<and> handle_packet fv (ps ! n) s1 = Inr s2 \<and>
        otherPlayers s1 k = None \<and> otherPlayers s2 k \<noteq> None"
      then obtain n t1 t2 where n: "n < length ps"
        and a: "receive_all fv (take n ps) s = Inr t1" "handle_packet fv (ps ! n) t1 = Inr t2"
          "otherPlayers t1 k = None" "otherPlayers t2 k \<noteq> None" by blast
      from n have "n < length (ps @ [p])" "take n (ps @ [p]) = take n ps" "(ps @ [p]) ! n = ps ! n"
        by (simp_all add: nth_append)
      with a show ?thesis by metis
    qed
  qed
qed

text \<open>
  C9. At every step of every packet sequence, the packet being processed leaves whatever
  the registry holds under the local ID as it is, for the ID that is local before the
  packet and for the ID that is local after it: no packet creates, changes or removes a
  record under the local ID. A \<^verbatim>\<open>PlayerState\<close> with the local ID writes the local ground
  flag and position only; \<^verbatim>\<open>PlayerJoined\<close> and \<^verbatim>\<open>PlayerLeft\<close> with the local ID do
  nothing; \<^verbatim>\<open>Welcome\<close> touches no record of the registry. So after any sequence, a
  record under the local ID was either there at the start or was inserted by a packet
  before and after which that ID was not the local one.
\<close>

theorem local_id_never_inserted:
  "(\<forall>n < length packets. \<forall>s1 s2.
       receive_all fv (take n packets) s = Inr s1 \<longrightarrow>
       handle_packet fv (packets ! n) s1 = Inr s2 \<longrightarrow>
       registry_at s2 (myPlayerId s1) = registry_at s1 (myPlayerId s1)
       \<and> registry_at s2 (myPlayerId s2) = registry_at s1 (myPlayerId s2))
   \<and> on_PlayerState (myPlayerId s) x y g s
        = s\<lparr>myIsOnGround := g, playerSprite := (playerSprite s)\<lparr>position := (x, y)\<rparr>\<rparr>
   \<and> on_PlayerJoined (myPlayerId s) x y g s = s
   \<and> on_PlayerLeft (myPlayerId s) s = s
   \<and> (\<forall>q. registry_at (on_Welcome i s) q = registry_at s q)
   \<and> (\<forall>s'. receive_all fv packets s = Inr s' \<longrightarrow> otherPlayers s' (myPlayerId s') \<noteq> None \<longrightarrow>
         otherPlayers s (myPlayerId s') \<noteq> None \<or>
         (\<exists>n < length packets. \<exists>s1 s2.
            receive_all fv (take n packets) s = Inr s1 \<and>
            handle_packet fv (packets ! n) s1 = Inr s2 \<and>
            otherPlayers s1 (myPlayerId s') = None \<and> otherPlayers s2 (myPlayerId s') \<noteq> None \<and>
            myPlayerId s1 \<noteq> myPlayerId s' \<and> myPlayerId s2 \<noteq> myPlayerId s'))"
proof (intro conjI allI impI)
  fix n s1 s2
  assume h: "handle_packet fv (packets ! n) s1 = Inr s2"
  show "registry_at s2 (myPlayerId s1) = registry_at s1 (myPlayerId s1)"
    using h by (rule handle_packet_keeps_local_id_out)
  show "registry_at s2 (myPlayerId s2) = registry_at s1 (myPlayerId s2)"
    using h by (rule handle_packet_keeps_new_local_id_out)
next
  show "on_PlayerState (myPlayerId s) x y g s
        = s\<lparr>myIsOnGround := g, playerSprite := (playerSprite s)\<lparr>position := (x, y)\<rparr>\<rparr>"
    by (simp add: on_PlayerState_def)
  show "on_PlayerJoined (myPlayerId s) x y g s = s" by (simp add: on_PlayerJoined_def)
  show "on_PlayerLeft (myPlayerId s) s = s" by (simp add: on_PlayerLeft_def)
  show "registry_at (on_Welcome i s) q = registry_at s q" for q
    by (simp add: on_Welcome_def registry_at_def)
next
  fix s'
  assume r: "receive_all fv packets s = Inr s'" and k: "otherPlayers s' (myPlayerId s') \<noteq> None"
  let ?k = "myPlayerId s'"
  from registered_key_was_inserted [OF r k] show "otherPlayers s ?k \<noteq> None \<or>
         (\<exists>n < length packets. \<exists>s1 s2.
            receive_all fv (take n packets) s = Inr s1 \<and>
            handle_packet fv (packets ! n) s1 = Inr s2 \<and>
            otherPlayers s1 ?k = None \<and> otherPlayers s2 ?k \<noteq> None \<and>
            myPlayerId s1 \<noteq> ?k \<and> myPlayerId s2 \<noteq> ?k)"
  proof
    assume "otherPlayers s ?k \<noteq> None"
    then show ?thesis by simp
  next
    assume "\<exists>n < length packets. \<exists>s1 s2.
        receive_all fv (take n packets) s = Inr s1 \<and>
        handle_packet fv (packets ! n) s1 = Inr s2 \<and>
        otherPlayers s1 ?k = None \<and> otherPlayers s2 ?k \<noteq> None"
    then obtain n s1 s2 where n: "n < length packets"
      and a: "receive_all fv (take n packets) s = Inr s1"
      and h: "handle_packet fv (packets ! n) s1 = Inr s2"
      and b: "otherPlayers s1 ?k = None" "otherPlayers s2 ?k \<noteq> None" by blast
    have "myPlayerId s1 \<noteq> ?k"
    proof
      assume "myPlayerId s1 = ?k"
      with handle_packet_keeps_local_id_out [OF h] b show False by (simp add: registry_at_def)
    qed
    moreover have "myPlayerId s2 \<noteq> ?k"
    proof
      assume "myPlayerId s2 = ?k"
      with handle_packet_keeps_new_local_id_out [OF h] b show False by (simp add: registry_at_def)
    qed
    ultimately show ?thesis using n a h b by blast
  qed
qed

theorem local_id_never_inserted_witness:
  "\<exists>s1 s2.
     receive_all (\<lambda>b. 0)
       (take 1 [[1, 0, 0, 0, 5, 0, 0, 0, 0, 0, 0, 0, 0, 1], [0, 0, 0, 0, 5]]) (initial (512, 512)) = Inr s1
     \<and> handle_packet (\<lambda>b. 0)
         ([[1, 0, 0, 0, 5, 0, 0, 0, 0, 0, 0, 0, 0, 1], [0, 0, 0, 0, 5]] ! 1) s1 = Inr s2
     \<and> myPlayerId s1 = - 1 \<and> myPlayerId s2 = 5
     \<and> registry_at s2 (myPlayerId s1) = registry_at s1 (myPlayerId s1)
     \<and> registry_at s2 (myPlayerId s2) = registry_at s1 (myPlayerId s2)
     \<and> receive_all (\<lambda>b. 0) [[1, 0, 0, 0, 5, 0, 0, 0, 0, 0, 0, 0, 0, 1], [0, 0, 0, 0, 5]]
           (initial (512, 512)) = Inr s2
     \<and> otherPlayers s2 (myPlayerId s2) \<noteq> None
     \<and> (\<exists>n < length [[1, 0, 0, 0, 5, 0, 0, 0, 0, 0, 0, 0, 0, 1], [0, 0, 0, 0, 5 :: u8]]. \<exists>t1 t2.
           receive_all (\<lambda>b. 0)
             (take n [[1, 0, 0, 0, 5, 0, 0, 0, 0, 0, 0, 0, 0, 1], [0, 0, 0, 0, 5]]) (initial (512, 512)) = Inr t1
           \<and> handle_packet (\<lambda>b. 0)
               ([[1, 0, 0, 0, 5, 0, 0, 0, 0, 0, 0, 0, 0, 1], [0, 0, 0, 0, 5]] ! n) t1 = Inr t2
           \<and> otherPlayers t1 5 = None \<and> otherPlayers t2 5 \<noteq> None
           \<and> myPlayerId t1 \<noteq> 5 \<and> myPlayerId t2 \<noteq> 5)"
proof -
  let ?P = "[[1, 0, 0, 0, 5, 0, 0, 0, 0, 0, 0, 0, 0, 1], [0, 0, 0, 0, 5]] :: Packet list"
  let ?I = "initial (512, 512)"
  let ?s1 = "on_PlayerState 5 0 0 True ?I"
  let ?s2 = "on_Welcome 5 ?s1"
  note T = local_id_never_inserted [where packets = ?P and fv = "\<lambda>b. 0" and s = ?I]
  have r1: "receive_all (\<lambda>b. 0) (take 1 ?P) ?I = Inr ?s1"
    by (auto simp add: packet_defs ntohl_def)
  have h: "handle_packet (\<lambda>b. 0) (?P ! 1) ?s1 = Inr ?s2"
    by (simp add: packet_defs ntohl_def)
  have r2: "receive_all (\<lambda>b. 0) ?P ?I = Inr ?s2"
    by (auto simp add: packet_defs ntohl_def)
  have i1: "myPlayerId ?s1 = - 1" by (simp add: initial_def)
  have i2: "myPlayerId ?s2 = 5" by (simp add: on_Welcome_def)
  have k: "otherPlayers ?s2 (myPlayerId ?s2) \<noteq> None"
    by (simp add: on_Welcome_def on_PlayerState_def update_other_def create_other_def Let_def
        initial_def)
  have z: "otherPlayers ?I (myPlayerId ?s2) = None" by (simp add: initial_def)
  have n: "1 < length ?P" by simp
  from T [THEN conjunct1, THEN spec, THEN mp, OF n, THEN spec, THEN spec, THEN mp, OF r1,
      THEN mp, OF h]
  have a: "registry_at ?s2 (myPlayerId ?s1) = registry_at ?s1 (myPlayerId ?s1)
      \<and> registry_at ?s2 (myPlayerId ?s2) = registry_at ?s1 (myPlayerId ?s2)" .
  from T [THEN conjunct2, THEN conjunct2, THEN conjunct2, THEN conjunct2, THEN conjunct2,
      THEN spec, THEN mp, OF r2, THEN mp, OF k] z
  have b: "\<exists>n < length ?P. \<exists>t1 t2.
           receive_all (\<lambda>b. 0) (take n ?P) ?I = Inr t1
           \<and> handle_packet (\<lambda>b. 0) (?P ! n) t1 = Inr t2
           \<and> otherPlayers t1 (myPlayerId ?s2) = None \<and> otherPlayers t2 (myPlayerId ?s2) \<noteq> None
           \<and> myPlayerId t1 \<noteq> myPlayerId ?s2 \<and> myPlayerId t2 \<noteq> myPlayerId ?s2"
    by blast
  then have b': "\<exists>n < length ?P. \<exists>t1 t2.
           receive_all (\<lambda>b. 0) (take n ?P) ?I = Inr t1
           \<and> handle_packet (\<lambda>b. 0) (?P ! n) t1 = Inr t2
           \<and> otherPlayers t1 5 = None \<and> otherPlayers t2 5 \<noteq> None
           \<and> myPlayerId t1 \<noteq> 5 \<and> myPlayerId t2 \<noteq> 5"
    unfolding i2 .
  from r1 h i1 i2 a r2 k b' show ?thesis by blast
qed

text \<open>
  The second case occurs: a \<^verbatim>\<open>Welcome\<close> may assign an ID that an earlier
  \<^verbatim>\<open>PlayerState\<close> has registered as a remote player, and the registry then holds a record
  under the local ID.
\<close>

lemma Welcome_may_name_registered_id:
  "\<exists>s'. receive_all (\<lambda>b. 0) [[1, 0, 0, 0, 5, 0, 0, 0, 0, 0, 0, 0, 0, 1], [0, 0, 0, 0, 5]]
           (initial (512, 512)) = Inr s'
        \<and> myPlayerId s' = 5 \<and> otherPlayers s' (myPlayerId s') \<noteq> None"
  by (simp add: packet_defs ntohl_def on_Welcome_def on_PlayerState_def update_other_def
      create_other_def Let_def initial_def)

section \<open>The position of the local player\<close>

lemma handle_packet_PlayerState:
  assumes "PlayerState_fields packet = Some (i, x, y, g)"
  shows "handle_packet fv packet s = Inr (on_PlayerState i (fv x) (fv y) g s)"
  using assms unfolding PlayerState_fields_def handle_packet_def
  by (auto split: option.splits PacketType.splits)

lemma local_states_snoc:
  "local_states me (ps @ [p]) =
     local_states me ps @
       (case PlayerState_fields p of
          None \<Rightarrow> []
        | Some m \<Rightarrow> if fst m = me then [m] else [])"
  by (simp add: local_states_def List.map_filter_def split: option.splits)

lemma position_on_PlayerState:
  "position (playerSprite (on_PlayerState i x y g s)) =
     (if i = myPlayerId s then (x, y) else position (playerSprite s))"
  by (simp add: on_PlayerState_def update_other_def create_other_def Let_def split: option.splits)

lemma receive_PlayerStates:
  assumes "\<forall>packet \<in> set packets. PlayerState_fields packet \<noteq> None"
  shows "\<exists>s'. receive_all fv packets s = Inr s' \<and> myPlayerId s' = myPlayerId s \<and>
     position (playerSprite s') =
       (if local_states (myPlayerId s) packets = [] then position (playerSprite s)
        else (case last (local_states (myPlayerId s) packets) of (i, x, y, g) \<Rightarrow> (fv x, fv y)))"
  using assms
proof (induction packets rule: rev_induct)
  case Nil
  then show ?case by (simp add: local_states_def List.map_filter_def)
next
  case (snoc p ps)
  from snoc.prems have v: "\<forall>packet \<in> set ps. PlayerState_fields packet \<noteq> None" by simp
  from snoc.IH [OF v] obtain s1 where r: "receive_all fv ps s = Inr s1"
    and d: "myPlayerId s1 = myPlayerId s"
    and q: "position (playerSprite s1) =
       (if local_states (myPlayerId s) ps = [] then position (playerSprite s)
        else (case last (local_states (myPlayerId s) ps) of (i, x, y, g) \<Rightarrow> (fv x, fv y)))"
    by blast
  from snoc.prems obtain i x y g where f: "PlayerState_fields p = Some (i, x, y, g)"
    by (cases "PlayerState_fields p") auto
  have h: "receive_all fv (ps @ [p]) s = Inr (on_PlayerState i (fv x) (fv y) g s1)"
    by (simp add: receive_all_append r handle_packet_PlayerState [OF f])
  show ?case
  proof (cases "i = myPlayerId s")
    case True
    with f d h show ?thesis
      by (simp add: local_states_snoc position_on_PlayerState)
  next
    case False
    with f d h q show ?thesis
      by (simp add: local_states_snoc position_on_PlayerState)
  qed
qed

lemma advance_others_local:
  assumes "advance_others s = Inr s'"
  shows "playerSprite s' = playerSprite s"
  using advance_others_Inr(1) [OF assms] by simp

lemma animate_position:
  assumes "animate input s = Inr s'"
  shows "position (playerSprite s') = position (playerSprite s)"
proof -
  from assms have "playerSprite s' = playerSprite (scale_local (advance_local (change_state input s)))"
    unfolding animate_def by (rule advance_others_local)
  then show ?thesis
    by (simp add: scale_local_def advance_local_def change_state_def Let_def split: option.splits)
qed

text \<open>
  C5. Let a sequence of packets be given that the dispatcher all accepts as
  \<^verbatim>\<open>PlayerState\<close> messages, at least one of them with the local ID. The dispatcher
  processes the sequence without failure, and afterwards the position of the local sprite
  is the (x, y) of the last message with the local ID, as decoded. The rest of the pass
  (lines 417--530) draws the sprite at this position and leaves it there.
\<close>

theorem local_position_is_last_received:
  assumes "\<forall>packet \<in> set packets. PlayerState_fields packet \<noteq> None"
    and "local_states (myPlayerId s) packets \<noteq> []"
  shows "\<exists>s'. receive_all fv packets s = Inr s'
     \<and> position (playerSprite s') =
         (case last (local_states (myPlayerId s) packets) of (i, x, y, g) \<Rightarrow> (fv x, fv y))
     \<and> (\<forall>input e. animate input s' = Inr e \<longrightarrow>
           position (playerSprite e) = position (playerSprite s')
           \<and> position (playerSprite (end_frame e)) = position (playerSprite s'))"
proof -
  from receive_PlayerStates [OF assms(1), of fv s] assms(2)
  obtain s' where r: "receive_all fv packets s = Inr s'"
    and q: "position (playerSprite s') =
         (case last (local_states (myPlayerId s) packets) of (i, x, y, g) \<Rightarrow> (fv x, fv y))"
    by auto
  have "position (playerSprite e) = position (playerSprite s')
      \<and> position (playerSprite (end_frame e)) = position (playerSprite s')"
    if "animate input s' = Inr e" for input e
    using animate_position [OF that] by (simp add: end_frame_def)
  with r q show ?thesis by blast
qed

theorem local_position_is_last_received_witness:
  "\<exists>s'. receive_all (\<lambda>b. case b of F32 a b c d \<Rightarrow> real (unat a))
           [[1, 0, 0, 0, 5, 10, 0, 0, 0, 20, 0, 0, 0, 1],
            [1, 0, 0, 0, 9, 1, 0, 0, 0, 2, 0, 0, 0, 1],
            [1, 0, 0, 0, 5, 30, 0, 0, 0, 40, 0, 0, 0, 0],
            [1, 0, 0, 0, 9, 3, 0, 0, 0, 4, 0, 0, 0, 1]]
           (on_Welcome 5 (initial (512, 512))) = Inr s'
        \<and> position (playerSprite s') = (30, 40)"
proof -
  let ?P = "[[1, 0, 0, 0, 5, 10, 0, 0, 0, 20, 0, 0, 0, 1],
            [1, 0, 0, 0, 9, 1, 0, 0, 0, 2, 0, 0, 0, 1],
            [1, 0, 0, 0, 5, 30, 0, 0, 0, 40, 0, 0, 0, 0],
            [1, 0, 0, 0, 9, 3, 0, 0, 0, 4, 0, 0, 0, 1]] :: Packet list"
  let ?s = "on_Welcome 5 (initial (512, 512))"
  have f: "List.map_filter PlayerState_fields ?P =
      [(5, F32 10 0 0 0, F32 20 0 0 0, True), (9, F32 1 0 0 0, F32 2 0 0 0, True),
       (5, F32 30 0 0 0, F32 40 0 0 0, False), (9, F32 3 0 0 0, F32 4 0 0 0, True)]"
    by (auto simp add: List.map_filter_def PlayerState_fields_def get_PacketType_def
        PacketType_of_u8_def get_id_x_y_ground_def get_bool_def ntohl_def)
  have v: "\<forall>packet \<in> set ?P. PlayerState_fields packet \<noteq> None"
    by (auto simp add: PlayerState_fields_def get_PacketType_def
        PacketType_of_u8_def get_id_x_y_ground_def get_bool_def)
  have l: "local_states (myPlayerId ?s) ?P =
      [(5, F32 10 0 0 0, F32 20 0 0 0, True), (5, F32 30 0 0 0, F32 40 0 0 0, False)]"
    unfolding local_states_def f by (simp add: on_Welcome_def)
  then have n: "local_states (myPlayerId ?s) ?P \<noteq> []" by simp
  from local_position_is_last_received [OF v n, of "\<lambda>b. case b of F32 a b c d \<Rightarrow> real (unat a)"]
  obtain s' where "receive_all (\<lambda>b. case b of F32 a b c d \<Rightarrow> real (unat a)) ?P ?s = Inr s'"
    and "position (playerSprite s') =
      (case last (local_states (myPlayerId ?s) ?P) of
         (i, x, y, g) \<Rightarrow> (case x of F32 a b c d \<Rightarrow> real (unat a), case y of F32 a b c d \<Rightarrow> real (unat a)))"
    by blast
  then show ?thesis unfolding l by simp
qed

section \<open>The local animation state machine\<close>

lemma handle_packet_local_animation:
  assumes "handle_packet fv packet s = Inr s'"
  shows "local_animation s' = local_animation s
     \<and> stateChangeCooldownTimer s' = stateChangeCooldownTimer s"
proof (rule handle_packet_cases [OF assms])
  show "local_animation s = local_animation s
     \<and> stateChangeCooldownTimer s = stateChangeCooldownTimer s" by simp
  show "local_animation (on_Welcome i s) = local_animation s
     \<and> stateChangeCooldownTimer (on_Welcome i s) = stateChangeCooldownTimer s" for i
    by (simp add: on_Welcome_def local_animation_def)
  show "local_animation (on_PlayerState pid x y g s) = local_animation s
     \<and> stateChangeCooldownTimer (on_PlayerState pid x y g s) = stateChangeCooldownTimer s"
    for pid x y g
    by (simp add: on_PlayerState_def update_other_def create_other_def Let_def
        local_animation_def split: option.splits)
  show "local_animation (on_PlayerJoined pid x y g s) = local_animation s
     \<and> stateChangeCooldownTimer (on_PlayerJoined pid x y g s) = stateChangeCooldownTimer s"
    for pid x y g
    by (simp add: on_PlayerJoined_def local_animation_def)
  show "local_animation (on_PlayerLeft pid s) = local_animation s
     \<and> stateChangeCooldownTimer (on_PlayerLeft pid s) = stateChangeCooldownTimer s" for pid
    by (simp add: on_PlayerLeft_def local_animation_def)
  show "local_animation s'' = local_animation s
     \<and> stateChangeCooldownTimer s'' = stateChangeCooldownTimer s"
    if "on_MapData p' s = Inr s''" for p' s''
  proof -
    from on_MapData_shape [OF that] obtain w h g sh l where
      "s'' = s\<lparr>clientMapWidth := w, clientMapHeight := h, clientTileMap := g,
           mapShapes := sh, mapLoaded := l\<rparr>" by blast
    then show ?thesis by (simp add: local_animation_def)
  qed
qed

lemma receive_all_local_animation:
  "receive_all fv packets s = Inr s' \<Longrightarrow>
     local_animation s' = local_animation s
       \<and> stateChangeCooldownTimer s' = stateChangeCooldownTimer s"
proof (induction packets arbitrary: s)
  case Nil
  then show ?case by simp
next
  case (Cons p ps)
  from Cons.prems obtain s1 where h: "handle_packet fv p s = Inr s1"
    and r: "receive_all fv ps s1 = Inr s'"
    by (auto split: sum.splits)
  from handle_packet_local_animation [OF h] Cons.IH [OF r] show ?case by simp
qed

lemma before_animate_local:
  assumes "before_animate fv dt input packets s = Inr m"
  shows "currentAnimState m = currentAnimState s"
    and "currentFrame m = currentFrame s"
    and "animTimer m = animTimer s + dt"
    and "stateChangeCooldownTimer m =
      (if stateChangeCooldownTimer s > 0 then stateChangeCooldownTimer s - dt
       else stateChangeCooldownTimer s)"
  using receive_all_local_animation [OF assms [unfolded before_animate_def]]
  by (simp_all add: local_animation_def tick_def face_input_def)

lemma animate_local:
  assumes "animate input m = Inr e"
  shows "local_animation e = local_animation (advance_local (change_state input m))"
    and "stateChangeCooldownTimer e = stateChangeCooldownTimer (change_state input m)"
    and "myIsOnGround e = myIsOnGround m"
proof -
  from assms have "advance_others (scale_local (advance_local (change_state input m))) = Inr e"
    by (simp add: animate_def)
  from advance_others_Inr(1) [OF this]
  show "local_animation e = local_animation (advance_local (change_state input m))"
    and "stateChangeCooldownTimer e = stateChangeCooldownTimer (change_state input m)"
    and "myIsOnGround e = myIsOnGround m"
    by (simp_all add: local_animation_def scale_local_def advance_local_def change_state_def
        Let_def split: option.splits)
qed

lemma seconds_cooldown: "seconds STATE_CHANGE_COOLDOWN = 100000"
  by (simp add: seconds_def STATE_CHANGE_COOLDOWN_def f_0_1_def)

lemma seconds_f_0_1: "seconds f_0_1 = 100000"
  by (simp add: seconds_def f_0_1_def)

lemma seconds_f_0_18: "seconds f_0_18 = 180000"
  by (simp add: seconds_def f_0_18_def)

text \<open>
  C6. Let the local state be Stand, the cooldown expired and the ground flag false when a
  pass reaches the state decision (line 417). That pass changes the state to Jump, sets
  frame index and frame timer to zero and the cooldown to 0.1 s, and ends so. Let the
  ground flag be false again when the next pass, after any elapsed time and any packets,
  reaches the decision. Then its decision changes nothing: the state stays Jump, the
  frame timer holds the time elapsed since the change and is not reset, and the cooldown
  has run down by that time and is not restarted.
\<close>

theorem Stand_to_Jump_once:
  assumes "currentAnimState m1 = Stand" and "stateChangeCooldownTimer m1 \<le> 0"
    and "\<not> myIsOnGround m1"
    and "animate input1 m1 = Inr e1"
    and "before_animate fv dt2 input2 packets2 (end_frame e1) = Inr m2"
    and "\<not> myIsOnGround m2"
  shows "change_state input1 m1 =
           m1\<lparr>currentFrame := 0, animTimer := 0, currentAnimState := Jump,
              stateChangeCooldownTimer := 100000,
              playerSprite := (playerSprite m1)\<lparr>textureRect := ((128, 320), (64, 64))\<rparr>\<rparr>
     \<and> local_animation e1 = (Jump, 0, 0) \<and> stateChangeCooldownTimer e1 = 100000
     \<and> local_animation m2 = (Jump, 0, dt2) \<and> stateChangeCooldownTimer m2 = 100000 - dt2
     \<and> change_state input2 m2 = m2
     \<and> (\<forall>e2. animate input2 m2 = Inr e2 \<longrightarrow>
           currentAnimState e2 = Jump \<and> stateChangeCooldownTimer e2 = 100000 - dt2)"
proof -
  have c1: "change_state input1 m1 =
           m1\<lparr>currentFrame := 0, animTimer := 0, currentAnimState := Jump,
              stateChangeCooldownTimer := 100000,
              playerSprite := (playerSprite m1)\<lparr>textureRect := ((128, 320), (64, 64))\<rparr>\<rparr>"
    using assms(1-3)
    by (simp add: change_state_def targetState_def seconds_cooldown frameRect_def c_mod_def
        c_div_def FRAMES_PER_ROW_def FRAME_WIDTH_def FRAME_HEIGHT_def Let_def)
  have e1: "local_animation e1 = (Jump, 0, 0)" "stateChangeCooldownTimer e1 = 100000"
    using animate_local(1,2) [OF assms(4)] unfolding c1
    by (simp_all add: local_animation_def advance_local_def seconds_f_0_1)
  have m2: "local_animation m2 = (Jump, 0, dt2)" "stateChangeCooldownTimer m2 = 100000 - dt2"
    using before_animate_local [OF assms(5)] e1
    by (simp_all add: local_animation_def end_frame_def)
  have c2: "change_state input2 m2 = m2"
    using m2(1) assms(6) by (simp add: change_state_def targetState_def local_animation_def)
  have "currentAnimState e2 = Jump \<and> stateChangeCooldownTimer e2 = 100000 - dt2"
    if "animate input2 m2 = Inr e2" for e2
    using animate_local(1,2) [OF that] m2 unfolding c2
    by (simp add: local_animation_def advance_local_def Let_def)
  with c1 e1 m2 c2 show ?thesis by blast
qed

theorem Stand_to_Jump_once_witness:
  "\<exists>e1 m2.
     animate \<lparr>up = False, down = False, left = False, right = False, jump = False\<rparr>
       ((initial (512, 512))\<lparr>myIsOnGround := False\<rparr>) = Inr e1
     \<and> before_animate (\<lambda>b. 0) 16000
         \<lparr>up = False, down = False, left = False, right = False, jump = False\<rparr> [] (end_frame e1) = Inr m2
     \<and> local_animation e1 = (Jump, 0, 0) \<and> stateChangeCooldownTimer e1 = 100000
     \<and> local_animation m2 = (Jump, 0, 16000) \<and> stateChangeCooldownTimer m2 = 84000
     \<and> change_state \<lparr>up = False, down = False, left = False, right = False, jump = False\<rparr> m2 = m2"
proof -
  let ?i = "\<lparr>up = False, down = False, left = False, right = False, jump = False\<rparr>"
  let ?m1 = "(initial (512, 512))\<lparr>myIsOnGround := False\<rparr>"
  have a: "currentAnimState ?m1 = Stand" and b: "stateChangeCooldownTimer ?m1 \<le> 0"
    and c: "\<not> myIsOnGround ?m1"
    by (simp_all add: initial_def)
  obtain e1 where e1: "animate ?i ?m1 = Inr e1"
    by (simp add: pass_defs initial_def Let_def)
  define m2 where "m2 = face_input ?i (tick 16000 (end_frame e1))"
  have m2: "before_animate (\<lambda>b. 0) 16000 ?i [] (end_frame e1) = Inr m2"
    by (simp add: before_animate_def m2_def)
  have g: "\<not> myIsOnGround m2"
    using animate_local(3) [OF e1]
    by (simp add: m2_def face_input_def tick_def end_frame_def)
  from Stand_to_Jump_once [OF a b c e1 m2 g] e1 m2 show ?thesis by auto
qed

section \<open>The frame advance\<close>

lemma c_mod_nonneg: "0 \<le> a \<Longrightarrow> 0 < b \<Longrightarrow> c_mod a b = a mod b"
  by (cases "a = 0") (simp_all add: c_mod_def c_div_def minus_mult_div_eq_mod)

lemma advance_local_tick:
  assumes "animData (currentAnimState s) = Some d"
  shows "currentFrame (advance_local (tick dt s)) =
           (if animTimer s + dt \<ge> seconds (timePerFrame d)
            then c_mod (currentFrame s + 1) (frameCount d) else currentFrame s)"
    and "animTimer (advance_local (tick dt s)) =
           (if animTimer s + dt \<ge> seconds (timePerFrame d)
            then animTimer s + dt - seconds (timePerFrame d) else animTimer s + dt)"
  using assms by (simp_all add: advance_local_def tick_def Let_def)

lemma advance_others_tick:
  assumes "advance_others (tick dt s) = Inr s'"
    and "otherPlayers s pid = Some sprite" and "otherPlayersAnimState s pid = Some st"
    and "animData st = Some d"
    and "otherPlayersCurrentFrame s pid = Some f" and "otherPlayersAnimTimer s pid = Some t"
  shows "otherPlayersCurrentFrame s' pid =
           Some (if t + dt \<ge> seconds (timePerFrame d) then c_mod (f + 1) (frameCount d) else f)"
    and "otherPlayersAnimTimer s' pid =
           Some (if t + dt \<ge> seconds (timePerFrame d) then t + dt - seconds (timePerFrame d)
                 else t + dt)"
proof -
  from advance_others_pointwise [OF assms(1), of pid] obtain s1 where
    a: "animate_other pid (tick dt s) = Inr s1"
    and b: "otherPlayersCurrentFrame s' pid = otherPlayersCurrentFrame s1 pid"
    and c: "otherPlayersAnimTimer s' pid = otherPlayersAnimTimer s1 pid"
    by blast
  from a assms(2-6) have
    "otherPlayersCurrentFrame s1 pid =
       Some (if t + dt \<ge> seconds (timePerFrame d) then c_mod (f + 1) (frameCount d) else f)
     \<and> otherPlayersAnimTimer s1 pid =
       Some (if t + dt \<ge> seconds (timePerFrame d) then t + dt - seconds (timePerFrame d)
             else t + dt)"
    by (auto simp: animate_other_def tick_def Let_def)
  with b c show "otherPlayersCurrentFrame s' pid =
           Some (if t + dt \<ge> seconds (timePerFrame d) then c_mod (f + 1) (frameCount d) else f)"
    and "otherPlayersAnimTimer s' pid =
           Some (if t + dt \<ge> seconds (timePerFrame d) then t + dt - seconds (timePerFrame d)
                 else t + dt)"
    by simp_all
qed

lemma walking_pass:
  assumes "frame fv dt input [] s = Inr s'"
    and "currentAnimState s = Walk" and "myIsOnGround s" and "left input \<or> right input"
  shows "currentAnimState s' = Walk" and "myIsOnGround s'"
    and "currentFrame s' =
           (if animTimer s + dt \<ge> 100000 then c_mod (currentFrame s + 1) 8 else currentFrame s)"
    and "animTimer s' =
           (if animTimer s + dt \<ge> 100000 then animTimer s + dt - 100000 else animTimer s + dt)"
proof -
  let ?m = "face_input input (tick dt s)"
  from assms(1) obtain e where e: "animate input ?m = Inr e" and s': "s' = end_frame e"
    by (auto simp: frame_def before_animate_def split: sum.splits)
  have m: "currentAnimState ?m = Walk" "myIsOnGround ?m" "currentFrame ?m = currentFrame s"
    "animTimer ?m = animTimer s + dt"
    using assms(2,3) by (simp_all add: face_input_def tick_def)
  have c: "change_state input ?m = ?m"
    using m(1,2) assms(4) by (simp add: change_state_def targetState_def)
  from animate_local [OF e] have
    "local_animation e = local_animation (advance_local ?m)" "myIsOnGround e = myIsOnGround ?m"
    unfolding c by simp_all
  with m s' show "currentAnimState s' = Walk" and "myIsOnGround s'"
    and "currentFrame s' =
           (if animTimer s + dt \<ge> 100000 then c_mod (currentFrame s + 1) 8 else currentFrame s)"
    and "animTimer s' =
           (if animTimer s + dt \<ge> 100000 then animTimer s + dt - 100000 else animTimer s + dt)"
    by (simp_all add: local_animation_def advance_local_def end_frame_def seconds_f_0_1 Let_def)
qed

text \<open>
  C1 (as amended). In every pass of the game loop the elapsed time is added to the frame
  timer of the local player and of every remote player; then, once, if the timer has
  reached the descriptor's time per frame, that time is subtracted and the frame index
  moves on by one modulo the frame count. For the Walk descriptor (8 frames, 0.1 s), a
  player walking on the ground with a frame timer of zero: one pass with 0.35 s elapsed
  moves the index by exactly 1 and keeps 0.25 s, while four passes with 0.1, 0.1, 0.1 and
  0.05 s elapsed move it by 3 and keep 0.05 s.
\<close>

theorem frame_advance_once_per_pass:
  "(animData (currentAnimState s) = Some d \<longrightarrow>
      currentFrame (advance_local (tick dt s)) =
        (if animTimer s + dt \<ge> seconds (timePerFrame d)
         then c_mod (currentFrame s + 1) (frameCount d) else currentFrame s)
      \<and> animTimer (advance_local (tick dt s)) =
        (if animTimer s + dt \<ge> seconds (timePerFrame d)
         then animTimer s + dt - seconds (timePerFrame d) else animTimer s + dt))
   \<and> (advance_others (tick dt r) = Inr r' \<and> otherPlayers r pid = Some sprite
        \<and> otherPlayersAnimState r pid = Some st \<and> animData st = Some d'
        \<and> otherPlayersCurrentFrame r pid = Some f \<and> otherPlayersAnimTimer r pid = Some t \<longrightarrow>
      otherPlayersCurrentFrame r' pid =
        Some (if t + dt \<ge> seconds (timePerFrame d') then c_mod (f + 1) (frameCount d') else f)
      \<and> otherPlayersAnimTimer r' pid =
        Some (if t + dt \<ge> seconds (timePerFrame d') then t + dt - seconds (timePerFrame d')
              else t + dt))
   \<and> (currentAnimState w = Walk \<and> myIsOnGround w \<and> (left input \<or> right input)
        \<and> animTimer w = 0 \<and> 0 \<le> currentFrame w \<longrightarrow>
      (\<forall>w1. frame fv 350000 input [] w = Inr w1 \<longrightarrow>
         currentFrame w1 = (currentFrame w + 1) mod 8 \<and> animTimer w1 = 250000)
      \<and> (\<forall>w4. frames fv [(100000, input, []), (100000, input, []), (100000, input, []),
                          (50000, input, [])] w = Inr w4 \<longrightarrow>
         currentFrame w4 = (currentFrame w + 3) mod 8 \<and> animTimer w4 = 50000))"
proof (intro conjI impI allI)
  assume "animData (currentAnimState s) = Some d"
  then show "currentFrame (advance_local (tick dt s)) =
        (if animTimer s + dt \<ge> seconds (timePerFrame d)
         then c_mod (currentFrame s + 1) (frameCount d) else currentFrame s)"
    and "animTimer (advance_local (tick dt s)) =
        (if animTimer s + dt \<ge> seconds (timePerFrame d)
         then animTimer s + dt - seconds (timePerFrame d) else animTimer s + dt)"
    by (rule advance_local_tick)+
next
  assume a: "advance_others (tick dt r) = Inr r' \<and> otherPlayers r pid = Some sprite
        \<and> otherPlayersAnimState r pid = Some st \<and> animData st = Some d'
        \<and> otherPlayersCurrentFrame r pid = Some f \<and> otherPlayersAnimTimer r pid = Some t"
  then show "otherPlayersCurrentFrame r' pid =
        Some (if t + dt \<ge> seconds (timePerFrame d') then c_mod (f + 1) (frameCount d') else f)"
    by (intro advance_others_tick(1) [of dt r r' pid sprite st d' f t]) simp_all
  from a show "otherPlayersAnimTimer r' pid =
        Some (if t + dt \<ge> seconds (timePerFrame d') then t + dt - seconds (timePerFrame d')
              else t + dt)"
    by (intro advance_others_tick(2) [of dt r r' pid sprite st d' f t]) simp_all
next
  fix w1
  assume h: "currentAnimState w = Walk \<and> myIsOnGround w \<and> (left input \<or> right input)
        \<and> animTimer w = 0 \<and> 0 \<le> currentFrame w"
    and p: "frame fv 350000 input [] w = Inr w1"
  from h have hs: "currentAnimState w = Walk" "myIsOnGround w" "left input \<or> right input"
    "animTimer w = 0" "0 \<le> currentFrame w" by simp_all
  from walking_pass(3,4) [OF p hs(1-3)] hs(4,5)
  show "currentFrame w1 = (currentFrame w + 1) mod 8" and "animTimer w1 = 250000"
    by (simp_all add: c_mod_nonneg)
next
  fix w4
  assume h: "currentAnimState w = Walk \<and> myIsOnGround w \<and> (left input \<or> right input)
        \<and> animTimer w = 0 \<and> 0 \<le> currentFrame w"
    and p: "frames fv [(100000, input, []), (100000, input, []), (100000, input, []),
                          (50000, input, [])] w = Inr w4"
  from h have hs: "currentAnimState w = Walk" "myIsOnGround w" "left input \<or> right input"
    "animTimer w = 0" "0 \<le> currentFrame w" by simp_all
  from p obtain a b c where a: "frame fv 100000 input [] w = Inr a"
    and b: "frame fv 100000 input [] a = Inr b"
    and c: "frame fv 100000 input [] b = Inr c"
    and d: "frame fv 50000 input [] c = Inr w4"
    by (auto split: sum.splits)
  note wa = walking_pass [OF a hs(1-3)]
  note wb = walking_pass [OF b wa(1,2) hs(3)]
  note wc = walking_pass [OF c wb(1,2) hs(3)]
  note wd = walking_pass [OF d wc(1,2) hs(3)]
  have fa: "currentFrame a = (currentFrame w + 1) mod 8" "animTimer a = 0"
    using wa(3,4) hs(4,5) by (simp_all add: c_mod_nonneg)
  have fb: "currentFrame b = (currentFrame w + 2) mod 8" "animTimer b = 0"
    using wb(3,4) fa by (simp_all add: c_mod_nonneg mod_simps add.commute)
  have fc: "currentFrame c = (currentFrame w + 3) mod 8" "animTimer c = 0"
    using wc(3,4) fb by (simp_all add: c_mod_nonneg mod_simps add.commute)
  from wd(3,4) fc show "currentFrame w4 = (currentFrame w + 3) mod 8" and "animTimer w4 = 50000"
    by simp_all
qed

lemma frame_no_packets_total:
  assumes "same_keys s"
  shows "\<exists>s'. frame fv dt input [] s = Inr s' \<and> same_keys s'"
proof -
  let ?m = "face_input input (tick dt s)"
  have m: "same_keys (scale_local (advance_local (change_state input ?m)))"
    by (intro same_keys_scale_local same_keys_advance_local same_keys_change_state
        same_keys_face_input same_keys_tick assms)
  from advance_others_total [OF m] obtain e where e: "animate input ?m = Inr e"
    by (auto simp: animate_def)
  then have f: "frame fv dt input [] s = Inr (end_frame e)"
    by (simp add: frame_def before_animate_def)
  from same_keys_frame [OF assms f] f show ?thesis by blast
qed

theorem frame_advance_once_per_pass_witness:
  "currentFrame (advance_local (tick 350000 ((initial (512, 512))\<lparr>currentAnimState := Walk\<rparr>))) = 1
   \<and> animTimer (advance_local (tick 350000 ((initial (512, 512))\<lparr>currentAnimState := Walk\<rparr>))) = 250000
   \<and> (\<exists>r'. advance_others
          (tick 350000 (on_PlayerState 7 35 40 True (on_PlayerJoined 7 30 40 True (initial (512, 512)))))
          = Inr r'
        \<and> otherPlayersCurrentFrame r' 7 = Some 1 \<and> otherPlayersAnimTimer r' 7 = Some 250000)
   \<and> (\<exists>w1 w4.
        frame (\<lambda>b. 0) 350000 \<lparr>up = False, down = False, left = False, right = True, jump = False\<rparr> []
          ((initial (512, 512))\<lparr>currentAnimState := Walk\<rparr>) = Inr w1
        \<and> frames (\<lambda>b. 0)
            [(100000, \<lparr>up = False, down = False, left = False, right = True, jump = False\<rparr>, []),
             (100000, \<lparr>up = False, down = False, left = False, right = True, jump = False\<rparr>, []),
             (100000, \<lparr>up = False, down = False, left = False, right = True, jump = False\<rparr>, []),
             (50000, \<lparr>up = False, down = False, left = False, right = True, jump = False\<rparr>, [])]
            ((initial (512, 512))\<lparr>currentAnimState := Walk\<rparr>) = Inr w4
        \<and> currentFrame w1 = 1 \<and> animTimer w1 = 250000
        \<and> currentFrame w4 = 3 \<and> animTimer w4 = 50000)"
proof -
  let ?W = "(initial (512, 512))\<lparr>currentAnimState := Walk\<rparr>"
  let ?R = "on_PlayerState 7 35 40 True (on_PlayerJoined 7 30 40 True (initial (512, 512)))"
  let ?i = "\<lparr>up = False, down = False, left = False, right = True, jump = False\<rparr>"
  let ?d = "\<lparr>startFrameIndex = 32, frameCount = 8, timePerFrame = f_0_1\<rparr>"
  let ?sp = "(Sprite_new (512, 512))\<lparr>position := (35, 40)\<rparr>"
  let ?fs = "[(100000, ?i, []), (100000, ?i, []), (100000, ?i, []), (50000, ?i, [])]"
  have skW: "same_keys ?W" using same_keys_initial [of "(512, 512)"] by (simp add: same_keys_def)
  have skR: "same_keys (tick 350000 ?R)"
    by (intro same_keys_tick same_keys_on_PlayerState same_keys_on_PlayerJoined same_keys_initial)
  have 1: "animData (currentAnimState ?W) = Some ?d" by simp
  have f0: "currentFrame ?W = 0" "animTimer ?W = 0" by (simp_all add: initial_def)
  obtain r' where r': "advance_others (tick 350000 ?R) = Inr r'"
    using advance_others_total [OF skR] by blast
  have R: "advance_others (tick 350000 ?R) = Inr r' \<and> otherPlayers ?R 7 = Some ?sp
      \<and> otherPlayersAnimState ?R 7 = Some Walk \<and> animData Walk = Some ?d
      \<and> otherPlayersCurrentFrame ?R 7 = Some 0 \<and> otherPlayersAnimTimer ?R 7 = Some 0"
    using r'
    by (simp add: on_PlayerState_def on_PlayerJoined_def update_other_def Let_def initial_def
        f_0_1_def Sprite_new_def)
  have W: "currentAnimState ?W = Walk \<and> myIsOnGround ?W \<and> (left ?i \<or> right ?i)
      \<and> animTimer ?W = 0 \<and> 0 \<le> currentFrame ?W"
    by (simp add: initial_def)
  obtain w1 where w1: "frame (\<lambda>b. 0) 350000 ?i [] ?W = Inr w1"
    using frame_no_packets_total [OF skW] by blast
  obtain w4 where w4: "frames (\<lambda>b. 0) ?fs ?W = Inr w4"
    by (simp add: pass_defs initial_def Let_def)
  note T = frame_advance_once_per_pass [where s = ?W and d = ?d and dt = 350000 and r = ?R
      and r' = r' and pid = 7 and sprite = ?sp and st = Walk and d' = ?d and f = 0 and t = 0
      and w = ?W and input = ?i and fv = "\<lambda>b. 0"]
  note T1 = T [THEN conjunct1, THEN mp, OF 1]
  note T2 = T [THEN conjunct2, THEN conjunct1, THEN mp, OF R]
  note T3 = T [THEN conjunct2, THEN conjunct2, THEN mp, OF W]
  have a: "currentFrame (advance_local (tick 350000 ?W)) = 1
      \<and> animTimer (advance_local (tick 350000 ?W)) = 250000"
    unfolding T1 [THEN conjunct1] T1 [THEN conjunct2]
    by (simp add: seconds_f_0_1 f0 c_mod_nonneg)
  have b: "otherPlayersCurrentFrame r' 7 = Some 1 \<and> otherPlayersAnimTimer r' 7 = Some 250000"
    unfolding T2 [THEN conjunct1] T2 [THEN conjunct2]
    by (simp add: seconds_f_0_1 c_mod_nonneg)
  from T3 [THEN conjunct1, THEN spec, THEN mp, OF w1]
  have c: "currentFrame w1 = 1 \<and> animTimer w1 = 250000" by (simp add: f0)
  from T3 [THEN conjunct2, THEN spec, THEN mp, OF w4]
  have d: "currentFrame w4 = 3 \<and> animTimer w4 = 50000" by (simp add: f0)
  from a b c d r' w1 w4 show ?thesis by blast
qed

text \<open>
  The claim as stated fails: from the start of the program with the right key held, a
  pass with 0.35 s elapsed leaves frame 1 with 0.25 s on the timer, not frame 3 with
  0.05 s, and the same 0.35 s spread over four passes leaves frame 3 with 0.05 s.
\<close>

theorem frame_advance_counterexample:
  "map_sum (\<lambda>e. e) local_animation
     (frames (\<lambda>b. 0)
        [(0, \<lparr>up = False, down = False, left = False, right = True, jump = False\<rparr>, []),
         (350000, \<lparr>up = False, down = False, left = False, right = True, jump = False\<rparr>, [])]
        (initial (512, 512))) = Inr (Walk, 1, 250000)
   \<and> map_sum (\<lambda>e. e) local_animation
     (frames (\<lambda>b. 0)
        [(0, \<lparr>up = False, down = False, left = False, right = True, jump = False\<rparr>, []),
         (100000, \<lparr>up = False, down = False, left = False, right = True, jump = False\<rparr>, []),
         (100000, \<lparr>up = False, down = False, left = False, right = True, jump = False\<rparr>, []),
         (100000, \<lparr>up = False, down = False, left = False, right = True, jump = False\<rparr>, []),
         (50000, \<lparr>up = False, down = False, left = False, right = True, jump = False\<rparr>, [])]
        (initial (512, 512))) = Inr (Walk, 3, 50000)"
  by (simp add: pass_defs initial_def Let_def local_animation_def c_mod_def c_div_def frameRect_def)

section \<open>The wire codec\<close>

lemma ntohl_of_htonl:
  "ntohl (ucast (drop_bit 24 w)) (ucast (drop_bit 16 w)) (ucast (drop_bit 8 w)) (ucast w) = w"
proof (rule bit_word_eqI)
  fix n :: nat
  assume n: "n < LENGTH(32)"
  consider "n < 8" | "8 \<le> n" "n < 16" | "16 \<le> n" "n < 24" | "24 \<le> n" by linarith
  then show "bit (ntohl (ucast (drop_bit 24 w)) (ucast (drop_bit 16 w)) (ucast (drop_bit 8 w))
      (ucast w)) n = bit w n"
  proof cases
    case 1
    then show ?thesis by (simp add: ntohl_def bit_simps)
  next
    case 2
    then show ?thesis by (auto simp: ntohl_def bit_simps)
  next
    case 3
    then show ?thesis by (auto simp: ntohl_def bit_simps)
  next
    case 4
    with n show ?thesis by (auto simp: ntohl_def bit_simps)
  qed
qed

lemma htonl_of_ntohl: "htonl (ntohl a b c d) = [a, b, c, d]"
  unfolding ntohl_def htonl_def
  by (simp add: bit_eq_iff bit_simps) (auto dest: bit_imp_le_length)

lemma get_put_u32: "get_u32 (put_u32 w @ r) = Some (w, r)"
  by (simp add: put_u32_def htonl_def ntohl_of_htonl)

lemma get_put_i32: "get_i32 (put_i32 w @ r) = Some (w, r)"
  by (simp add: get_i32_def put_i32_def htonl_def ntohl_of_htonl)

lemma get_put_f32: "get_f32 (put_f32 x @ r) = Some (x, r)"
  by (cases x) simp

lemma get_put_bool: "get_bool (put_bool b @ r) = Some (b, r)"
  by (simp add: get_bool_def put_bool_def put_u8_def)

lemma get_put_PacketType: "get_PacketType (put_PacketType t @ r) = Some (Some t, r)"
  by (cases t) (simp_all add: get_PacketType_def put_PacketType_def put_u8_def PacketType_of_u8_def)

lemma get_put_PlayerInputState:
  "get_PlayerInputState (put_PlayerInputState input @ r) = Some (input, r)"
  by (simp add: get_PlayerInputState_def put_PlayerInputState_def get_put_bool)

lemma get_put_id_x_y_ground:
  "get_id_x_y_ground (put_u32 i @ put_f32 x @ put_f32 y @ put_bool g @ r) = Some ((i, x, y, g), r)"
  by (simp add: get_id_x_y_ground_def get_put_u32 get_put_f32 get_put_bool)

lemma get_put_width_height:
  "get_width_height (put_u32 w @ put_u32 h @ r) = Some ((w, h), r)"
  by (simp add: get_width_height_def get_put_u32)

lemma get_put_tiles:
  "get_tiles (length ts) (concat (map put_i32 ts) @ r) = Some (ts, r)"
  by (induction ts) (simp_all add: get_put_i32)

lemma get_tiles_length: "get_tiles n p = Some (ts, rest) \<Longrightarrow> length ts = n"
  by (induction n arbitrary: p ts) (auto split: option.splits)

text \<open>Every message the decoder yields is well formed.\<close>

lemma decode_wf:
  assumes "decode bytes = Some (m, r)"
  shows "wf_message m"
proof (cases m)
  case (MsgMapData w h ts)
  with assms obtain p p1 where "get_PacketType bytes = Some (Some MapData, p)"
    and "get_width_height p = Some ((w, h), p1)" and "\<not> (sint w < 0 \<or> sint h < 0)"
    and "get_tiles (nat (sint h) * nat (sint w)) p1 = Some (ts, r)"
    by (auto simp: decode_def split: option.splits PacketType.splits if_splits)
  with MsgMapData get_tiles_length [of "nat (sint h) * nat (sint w)" p1 ts r]
  show ?thesis by simp
qed simp_all

lemma decode_encode:
  assumes "wf_message m"
  shows "decode (encode m) = Some (m, [])"
proof (cases m)
  case (MsgWelcome i)
  then show ?thesis
    using get_put_u32 [of i "[]"] by (simp add: decode_def get_put_PacketType)
next
  case (MsgPlayerState i x y g)
  then show ?thesis
    using get_put_id_x_y_ground [of i x y g "[]"] by (simp add: decode_def get_put_PacketType)
next
  case (MsgPlayerInput input)
  then show ?thesis
    using get_put_PlayerInputState [of input "[]"] by (simp add: decode_def get_put_PacketType)
next
  case (MsgPlayerJoined i x y g)
  then show ?thesis
    using get_put_id_x_y_ground [of i x y g "[]"] by (simp add: decode_def get_put_PacketType)
next
  case (MsgPlayerLeft i)
  then show ?thesis
    using get_put_u32 [of i "[]"] by (simp add: decode_def get_put_PacketType)
next
  case (MsgMapData w h ts)
  with assms have n: "nat (sint h) * nat (sint w) = length ts" and s: "\<not> sint w < 0" "\<not> sint h < 0"
    by simp_all
  from MsgMapData show ?thesis
    using get_put_tiles [of ts "[]"]
    by (simp add: decode_def get_put_PacketType get_put_width_height n s)
qed

text \<open>
  C8. For every well-formed message value of each of the six tags, the bytes the encoder
  produces for it decode to that value with no byte left over, and encoding the decoded
  value gives the same bytes again.
\<close>

theorem encode_decode_roundtrip:
  assumes "wf_message m"
  shows "decode (encode m) = Some (m, []) \<and> recode (encode m) = Some (encode m)"
  using decode_encode [OF assms] by (simp add: recode_def)

theorem encode_decode_roundtrip_witness:
  "recode (encode (MsgMapData 2 1 [1, 0])) = Some (encode (MsgMapData 2 1 [1, 0]))
   \<and> encode (MsgMapData 2 1 [1, 0]) = [5, 0, 0, 0, 2, 0, 0, 0, 1, 0, 0, 0, 1, 0, 0, 0, 0]
   \<and> recode (encode (MsgPlayerInput \<lparr>up = False, down = False, left = True, right = False, jump = True\<rparr>))
       = Some [2, 0, 0, 1, 0, 1]"
proof -
  have a: "wf_message (MsgMapData 2 1 [1, 0])" by simp
  have b: "wf_message (MsgPlayerInput \<lparr>up = False, down = False, left = True, right = False, jump = True\<rparr>)"
    by simp
  from encode_decode_roundtrip [OF a] encode_decode_roundtrip [OF b] show ?thesis
    by (simp add: put_PacketType_def put_u8_def put_u32_def put_i32_def htonl_def
        put_PlayerInputState_def put_bool_def)
qed

text \<open>
  The hypothesis matters: bytes that the decoder accepts but no encoder produces are not
  restored. A boolean byte other than 0 and 1 is read as true and written back as 1,
  and bytes after the last field are dropped.
\<close>

lemma accepted_bytes_not_restored:
  "map_option (\<lambda>r. encode (fst r)) (decode [2, 2, 0, 0, 0, 0]) = Some [2, 1, 0, 0, 0, 0]
   \<and> map_option (\<lambda>r. encode (fst r)) (decode [4, 0, 0, 0, 7, 9]) = Some [4, 0, 0, 0, 7]"
  by (simp add: decode_def get_PacketType_def PacketType_of_u8_def get_PlayerInputState_def
      get_bool_def put_PlayerInputState_def put_bool_def put_u8_def put_PacketType_def
      put_u32_def htonl_of_ntohl)

section \<open>Map data\<close>

lemma get_i32_None: "(get_i32 p = None) = (length p < 4)"
proof (cases p)
  case Nil
  then show ?thesis by (simp add: get_i32_def)
next
  case (Cons a p1)
  show ?thesis
  proof (cases p1)
    case Nil
    with Cons show ?thesis by (simp add: get_i32_def)
  next
    case (Cons b p2)
    show ?thesis
    proof (cases p2)
      case Nil
      with \<open>p = a # p1\<close> \<open>p1 = b # p2\<close> show ?thesis by (simp add: get_i32_def)
    next
      case (Cons c p3)
      with \<open>p = a # p1\<close> \<open>p1 = b # p2\<close> show ?thesis by (cases p3) (simp_all add: get_i32_def)
    qed
  qed
qed

lemma get_i32_Some:
  assumes "get_i32 p = Some (t, p')"
  shows "length p = length p' + 4" and "p' = drop 4 p"
  using assms by (induction p rule: get_u32.induct) (auto simp: get_i32_def)

lemma read_row_parseOk:
  "read_row w y x p g sh = Inr (ok, p', g', sh') \<Longrightarrow>
     ok = (4 * (nat w - x) \<le> length p) \<and> (ok \<longrightarrow> length p' + 4 * (nat w - x) = length p)"
proof (induction w y x p g sh rule: read_row.induct)
  case (1 w y x packet grid shapes)
  show ?case
  proof (cases "int x < w")
    case False
    with "1.prems" show ?thesis by auto
  next
    case True
    then have k: "nat w - x = Suc (nat w - (x + 1))" by linarith
    show ?thesis
    proof (cases "get_i32 packet")
      case None
      with True "1.prems" have "\<not> ok" by simp
      moreover from None have "length packet < 4" by (simp add: get_i32_None)
      ultimately show ?thesis using k by simp
    next
      case (Some a)
      then obtain t p1 where a: "get_i32 packet = Some (t, p1)" by (cases a) auto
      with True "1.prems" have b: "y < length grid \<and> x < length (grid ! y)"
        by (auto split: if_splits)
      with True a "1.prems" have r: "read_row w y (x + 1) p1
          (grid[y := (grid ! y)[x := t]])
          (if t = 1 then shapes @ [tileShape x y] else shapes) = Inr (ok, p', g', sh')"
        by simp
      from "1.IH" [OF True a _ b r]
      have "ok = (4 * (nat w - (x + 1)) \<le> length p1)
          \<and> (ok \<longrightarrow> length p' + 4 * (nat w - (x + 1)) = length p1)" by simp
      with get_i32_Some(1) [OF a] k show ?thesis by auto
    qed
  qed
qed

lemma read_rows_parseOk:
  "read_rows w h y p g sh = Inr (ok, g', sh') \<Longrightarrow>
     ok = (4 * nat w * (nat h - y) \<le> length p)"
proof (induction w h y p g sh rule: read_rows.induct)
  case (1 w h y packet grid shapes)
  show ?case
  proof (cases "int y < h")
    case False
    with "1.prems" show ?thesis by auto
  next
    case True
    then have k: "nat h - y = Suc (nat h - (y + 1))" by linarith
    from True "1.prems" obtain ok1 p1 g1 sh1 where
      r: "read_row w y 0 packet grid shapes = Inr (ok1, p1, g1, sh1)"
      by (auto split: sum.splits)
    from read_row_parseOk [OF r] have o: "ok1 = (4 * nat w \<le> length packet)"
      and l: "ok1 \<longrightarrow> length p1 + 4 * nat w = length packet" by simp_all
    show ?thesis
    proof (cases ok1)
      case False
      with True r "1.prems" have "\<not> ok" by simp
      with False o k show ?thesis by simp
    next
      case True
      with \<open>int y < h\<close> r "1.prems" have n: "read_rows w h (y + 1) p1 g1 sh1 = Inr (ok, g', sh')"
        by simp
      from True have "\<not> \<not> ok1" by simp
      from "1.IH" [OF \<open>int y < h\<close> r refl refl refl this n]
      have "ok = (4 * nat w * (nat h - (y + 1)) \<le> length p1)" .
      with l True k show ?thesis by auto
    qed
  qed
qed





declare read_row.simps [simp del] read_rows.simps [simp del]



lemma on_MapData_header:
  assumes "get_width_height packet = Some ((width, height), p1)"
    and "on_MapData packet s = Inr s'"
  shows "clientMapWidth s' = sint width \<and> clientMapHeight s' = sint height
     \<and> mapLoaded s' = (mapLoaded s \<or> 4 * nat (sint width) * nat (sint height) \<le> length p1)"
proof -
  let ?g = "resize_rows (nat (sint height)) (replicate (nat (sint width)) 0) (clientTileMap s)"
  from assms have n: "\<not> (sint width < 0 \<or> sint height < 0)"
    by (auto simp: on_MapData_def Let_def split: if_splits)
  with assms obtain ok grid shapes where
    r: "read_rows (sint width) (sint height) 0 p1 ?g [] = Inr (ok, grid, shapes)"
    and s': "s' = s\<lparr>clientMapWidth := sint width, clientMapHeight := sint height,
                    clientTileMap := grid, mapShapes := shapes,
                    mapLoaded := (if ok then True else mapLoaded s)\<rparr>"
    by (auto simp: on_MapData_def Let_def split: sum.splits)
  from read_rows_parseOk [OF r] have "ok = (4 * nat (sint width) * nat (sint height) \<le> length p1)"
    by simp
  with s' show ?thesis by auto
qed













text \<open>
  The hypothesis on the rows that are kept is needed. \<^verbatim>\<open>resize\<close> leaves the rows of the
  previous grid at their old length, so a second map that is wider than the first one
  makes line 362 write beyond the end of such a row.
\<close>

lemma MapData_second_map_wider:
  "receive_all (\<lambda>b. 0)
     [[5, 0, 0, 0, 1, 0, 0, 0, 1, 0, 0, 0, 1],
      [5, 0, 0, 0, 2, 0, 0, 0, 1, 0, 0, 0, 1, 0, 0, 0, 1]] (initial (512, 512))
     = Inl OutOfBounds"
  by (simp add: packet_defs on_MapData_def ntohl_def Let_def initial_def
      resize_rows_def read_row.simps read_rows.simps)

end
